theory Spec2Isabelle
  imports Complex_Main
begin

section \<open>Values of the token manager\<close>

text \<open>
  The token manager (\<^verbatim>\<open>OcaTokenManager\<close>) is asynchronous TypeScript. Its external
  collaborators (secret storage, the OIDC library, the clock, the random generator, the
  local HTTP server) are an environment of oracles; every call the manager makes to one of
  them is written to a log of events, in order. Exceptions are values: a function that can
  throw returns \<open>js_error + 'a\<close>, with \<open>Inl\<close> for the thrown value, and every \<^verbatim>\<open>try/catch\<close>
  of the source is a case distinction on that sum.
\<close>

text \<open>A JavaScript value read from a field of a thrown object: only strings are looked into.\<close>

datatype js_val = JStr string | JTruthy | JFalsy

fun truthy :: "js_val option \<Rightarrow> bool" where
  "truthy None = False"
| "truthy (Some (JStr s)) = (s \<noteq> [])"
| "truthy (Some JTruthy) = True"
| "truthy (Some JFalsy) = False"

text \<open>A thrown value, with the fields the source reads from it.\<close>

record js_error =
  instanceof_Error :: bool
  code :: "string option"
  error_description :: "js_val option"
  message :: "js_val option"
  as_String :: string

text \<open>\<^verbatim>\<open>new Error(msg)\<close>\<close>

definition new_Error :: "string \<Rightarrow> js_error" where
  "new_Error msg =
     \<lparr>instanceof_Error = True, code = None, error_description = None,
      message = Some (JStr msg), as_String = ''Error: '' @ msg\<rparr>"

text \<open>\<^verbatim>\<open>type TokenRecord\<close>: every field is optional.\<close>

record TokenRecord =
  access_token :: "string option"
  refresh_token :: "string option"
  id_token :: "string option"
  token_type :: "string option"
  scope :: "string option"
  expires_in :: "int option"
  expires_at :: "int option"

text \<open>
  \<^verbatim>\<open>TokenEndpointResponse\<close> of the OIDC library: the fields the manager copies. Whatever
  else the provider sent is the record's extension, which the manager never reads.
\<close>

record TokenEndpointResponse =
  res_access_token :: string
  res_refresh_token :: "string option"
  res_id_token :: "string option"
  res_token_type :: string
  res_scope :: "string option"
  res_expires_in :: "int option"

text \<open>The provider metadata that \<^verbatim>\<open>discovery\<close> resolves, an opaque document.\<close>

datatype OidcDiscoveryConfig = ProviderMetadata string

text \<open>
  What arrives at a bound callback listener, in order of arrival: a request, on a
  connection that is new or on one that is open already, and the outcome of a code
  exchange that a request has started.
\<close>

datatype connection = NewConnection | OpenConnection

datatype listener_input =
    Request connection "string option"
  | GrantSettles nat "js_error + TokenEndpointResponse"

text \<open>
  The calls to the outside, as they are logged. \<open>CodeGrant config p i\<close> is the call of
  \<^verbatim>\<open>authorizationCodeGrant\<close> with the document \<open>config\<close> for request \<open>i\<close> of the listener on
  port \<open>p\<close>, and \<open>Respond p i status\<close> the answer to that request.
\<close>

datatype event =
    SecretsGet
  | SecretsStore string
  | SecretsDelete
  | Discovery
  | Sleep int
  | RefreshGrant OidcDiscoveryConfig "string option"
  | ConsoleError string "js_error option"
  | Listen nat
  | ServerClose nat
  | PostAuthUrl string
  | OpenExternal string
  | CodeGrant OidcDiscoveryConfig nat nat
  | Respond nat nat nat

text \<open>
  The environment. Every oracle sees the events logged so far, so its answer may change
  from call to call. \<open>date_now\<close> is \<^verbatim>\<open>Date.now()\<close>, the milliseconds elapsed since the epoch;
  \<open>math_random\<close> is \<^verbatim>\<open>Math.random()\<close>; \<open>server_listen\<close> answers \<^verbatim>\<open>server.listen\<close> with the
  server's \<^verbatim>\<open>error\<close> event, or with none when the port is bound; \<open>inbound\<close> is what then
  arrives at the bound listener. The last two fields are constants of \<^verbatim>\<open>./utils/constants\<close>,
  a file that is not part of the sources at hand. The issuer URL, the client id and the
  scopes are fixed strings that no oracle needs to see; the issuer URL is taken to be
  well formed, so that \<^verbatim>\<open>new URL\<close> returns.
\<close>

record env =
  secrets_get :: "event list \<Rightarrow> js_error + string option"
  secrets_store :: "event list \<Rightarrow> string \<Rightarrow> js_error option"
  secrets_delete :: "event list \<Rightarrow> js_error option"
  JSON_parse :: "string \<Rightarrow> js_error + TokenRecord option"
  JSON_stringify :: "TokenRecord \<Rightarrow> string"
  discovery :: "event list \<Rightarrow> js_error + OidcDiscoveryConfig"
  refreshTokenGrant ::
    "event list \<Rightarrow> OidcDiscoveryConfig \<Rightarrow> string option \<Rightarrow> js_error + TokenEndpointResponse"
  date_now :: "event list \<Rightarrow> nat"
  math_random :: "event list \<Rightarrow> rat"
  server_listen :: "event list \<Rightarrow> nat \<Rightarrow> js_error option"
  inbound :: "event list \<Rightarrow> nat \<Rightarrow> listener_input list"
  postAuthUrl :: "string \<Rightarrow> js_error option"
  openExternal :: "string \<Rightarrow> js_error option"
  randomPKCECodeVerifier :: "event list \<Rightarrow> string"
  calculatePKCECodeChallenge :: "string \<Rightarrow> string"
  buildAuthorizationUrl :: "OidcDiscoveryConfig \<Rightarrow> string \<Rightarrow> string option \<Rightarrow> string"
  DEFAULT_INTERNAL_IDCS_PORT_CANDIDATES :: "nat list"
  DEFAULT_INTERNAL_USE_PKCE :: bool

definition RENEW_TOKEN_BUFFER_SEC :: int where
  "RENEW_TOKEN_BUFFER_SEC = 180"

section \<open>Discovery with retry and backoff\<close>

text \<open>
  A JavaScript number is an IEEE 754 double, and every sum and product is rounded to the
  nearest double, a tie going to the even significand. Numbers are rationals here, and
  \<open>to_double\<close> is that rounding. \<open>ulp x\<close> is the distance between neighbouring doubles at
  \<open>x\<close>: \<open>2 ^ (e - 52)\<close> where \<open>2 ^ e \<le> \<bar>x\<bar> < 2 ^ (e + 1)\<close>, with \<open>e\<close> no less than -1022 (the
  subnormal numbers) and no more than 1023. What lies beyond the largest double is not
  rounded to infinity: the delays of the retrier are far from it.
\<close>

primrec halvings :: "nat \<Rightarrow> rat \<Rightarrow> nat" where
  "halvings 0 x = 0"
| "halvings (Suc n) x = (if x < 2 then 0 else Suc (halvings n (x / 2)))"

primrec doublings :: "nat \<Rightarrow> rat \<Rightarrow> nat" where
  "doublings 0 x = 0"
| "doublings (Suc n) x = (if 1 \<le> x then 0 else Suc (doublings n (x * 2)))"

definition ulp :: "rat \<Rightarrow> rat" where
  "ulp x = (if 1 \<le> \<bar>x\<bar> then 2 ^ halvings 1023 \<bar>x\<bar> / 2 ^ 52
            else 1 / (2 ^ doublings 1022 \<bar>x\<bar> * 2 ^ 52))"

definition round_half_even :: "rat \<Rightarrow> int" where
  "round_half_even y =
     (if y - of_int \<lfloor>y\<rfloor> < 1 / 2 then \<lfloor>y\<rfloor>
      else if 1 / 2 < y - of_int \<lfloor>y\<rfloor> then \<lfloor>y\<rfloor> + 1
      else if even \<lfloor>y\<rfloor> then \<lfloor>y\<rfloor> else \<lfloor>y\<rfloor> + 1)"

definition to_double :: "rat \<Rightarrow> rat" where
  "to_double x = of_int (round_half_even (x / ulp x)) * ulp x"

text \<open>\<^verbatim>\<open>Math.round\<close>: the nearest integer, a half rounds up.\<close>

definition Math_round :: "rat \<Rightarrow> int" where
  "Math_round x = \<lfloor>x + 1 / 2\<rfloor>"

text \<open>
  The three lines that compute the wait after a failed attempt, from the attempt's number
  and the draw of \<^verbatim>\<open>Math.random()\<close>:
  \<^verbatim>\<open>backoff = Math.min(maxDelayMs, baseDelayMs * Math.pow(2, attempt))\<close>,
  \<^verbatim>\<open>jitter = 0.5 + Math.random()\<close>, \<^verbatim>\<open>delay = Math.round(backoff * jitter)\<close>.
  The power of two is exact; the two products and the sum are rounded.
\<close>

definition backoff :: "nat \<Rightarrow> nat \<Rightarrow> nat \<Rightarrow> rat" where
  "backoff baseDelayMs maxDelayMs attempt =
     min (of_nat maxDelayMs) (to_double (of_nat baseDelayMs * 2 ^ attempt))"

definition jitter :: "rat \<Rightarrow> rat" where
  "jitter rnd = to_double (1 / 2 + rnd)"

definition delay :: "nat \<Rightarrow> nat \<Rightarrow> nat \<Rightarrow> rat \<Rightarrow> int" where
  "delay baseDelayMs maxDelayMs attempt rnd =
     Math_round (to_double (backoff baseDelayMs maxDelayMs attempt * jitter rnd))"

text \<open>
  The \<^verbatim>\<open>for\<close> loop of \<^verbatim>\<open>discoveryWithRetry\<close>, from attempt \<open>attempt\<close> on. \<open>Inr\<close> is the
  \<^verbatim>\<open>return\<close> inside the loop; \<open>Inl lastErr\<close> is the loop left by \<^verbatim>\<open>break\<close> or by its
  condition, with the value of \<^verbatim>\<open>lastErr\<close> at that point.
\<close>

function discovery_loop ::
  "env \<Rightarrow> nat \<Rightarrow> nat \<Rightarrow> nat \<Rightarrow> nat \<Rightarrow> js_error option \<Rightarrow> event list
     \<Rightarrow> (js_error option + OidcDiscoveryConfig) \<times> event list" where
  "discovery_loop e retries baseDelayMs maxDelayMs attempt lastErr tr =
     (if attempt \<le> retries then
        (case discovery e tr of
           Inr config \<Rightarrow> (Inr config, tr @ [Discovery])
         | Inl err \<Rightarrow>
             if attempt = retries then (Inl (Some err), tr @ [Discovery])
             else discovery_loop e retries baseDelayMs maxDelayMs (attempt + 1) (Some err)
                    (tr @ [Discovery,
                           Sleep (delay baseDelayMs maxDelayMs attempt
                                    (math_random e (tr @ [Discovery])))]))
      else (Inl lastErr, tr))"
  by pat_completeness auto
termination
  by (relation "measure (\<lambda>(e, retries, b, m, attempt, l, tr). Suc retries - attempt)") auto

definition DISCOVERY_FAILED_MESSAGE :: string where
  "DISCOVERY_FAILED_MESSAGE =
     ''Only environment variable based proxy settings is supported. PAC/WPAD files (Ex: http://wpad/wpad.dat) are not supported in kilocode. Remove if any WPAD/PAC reference from your IDE proxy settings, restart the IDE, and try again. (Refer OCA Kilo troubleshooting guide.)''"

definition discoveryWithRetry ::
  "env \<Rightarrow> nat \<Rightarrow> nat \<Rightarrow> nat \<Rightarrow> event list \<Rightarrow> (js_error + OidcDiscoveryConfig) \<times> event list" where
  "discoveryWithRetry e retries baseDelayMs maxDelayMs tr =
     (case discovery_loop e retries baseDelayMs maxDelayMs 0 None tr of
        (Inr config, tr') \<Rightarrow> (Inr config, tr')
      | (Inl lastErr, tr') \<Rightarrow>
          (Inl (new_Error DISCOVERY_FAILED_MESSAGE),
           tr' @ [ConsoleError ''OCA: OIDC discovery failed:'' lastErr]))"

text \<open>The log at the start of attempt \<open>n\<close>, when every attempt before it has failed.\<close>

primrec before_attempt :: "env \<Rightarrow> nat \<Rightarrow> nat \<Rightarrow> event list \<Rightarrow> nat \<Rightarrow> event list" where
  "before_attempt e baseDelayMs maxDelayMs tr 0 = tr"
| "before_attempt e baseDelayMs maxDelayMs tr (Suc n) =
     before_attempt e baseDelayMs maxDelayMs tr n
       @ [Discovery,
          Sleep (delay baseDelayMs maxDelayMs n
                   (math_random e (before_attempt e baseDelayMs maxDelayMs tr n @ [Discovery])))]"

section \<open>The token store and the validity check\<close>

text \<open>The static fields of the class. \<open>inflightLogin\<close> holds the handle of a promise.\<close>

record manager =
  cached :: "TokenRecord option"
  inflightLogin :: "nat option"

text \<open>\<^verbatim>\<open>save\<close>: \<^verbatim>\<open>secrets.store(SECRET_STORAGE_KEY, JSON.stringify(t))\<close>, which may throw.\<close>

definition save :: "env \<Rightarrow> TokenRecord \<Rightarrow> event list \<Rightarrow> (js_error + unit) \<times> event list" where
  "save e t tr =
     (case secrets_store e tr (JSON_stringify e t) of
        Some err \<Rightarrow> (Inl err, tr @ [SecretsStore (JSON_stringify e t)])
      | None \<Rightarrow> (Inr (), tr @ [SecretsStore (JSON_stringify e t)]))"

text \<open>
  The \<^verbatim>\<open>try\<close> block of \<^verbatim>\<open>load\<close>. \<open>JSON_parse\<close> answers \<open>None\<close> for a text that parses to a
  falsy value: every reader of the result tests it for truth first.
\<close>

definition load_try :: "env \<Rightarrow> event list \<Rightarrow> (js_error + TokenRecord option) \<times> event list" where
  "load_try e tr =
     (case secrets_get e tr of
        Inl err \<Rightarrow> (Inl err, tr @ [SecretsGet])
      | Inr None \<Rightarrow> (Inr None, tr @ [SecretsGet])
      | Inr (Some json) \<Rightarrow>
          if json \<noteq> [] then
            (case JSON_parse e json of
               Inl err \<Rightarrow> (Inl err, tr @ [SecretsGet])
             | Inr t \<Rightarrow> (Inr t, tr @ [SecretsGet]))
          else (Inr None, tr @ [SecretsGet]))"

text \<open>\<^verbatim>\<open>load\<close>: the \<^verbatim>\<open>catch\<close> answers \<^verbatim>\<open>null\<close>.\<close>

definition load :: "env \<Rightarrow> event list \<Rightarrow> (js_error + TokenRecord option) \<times> event list" where
  "load e tr =
     (case load_try e tr of
        (Inl err, tr') \<Rightarrow> (Inr None, tr')
      | (Inr t, tr') \<Rightarrow> (Inr t, tr'))"

text \<open>
  \<^verbatim>\<open>isValid\<close>: \<^verbatim>\<open>!!t.expires_at && now < t.expires_at - RENEW_TOKEN_BUFFER_SEC\<close> with
  \<^verbatim>\<open>now = Math.floor(Date.now() / 1000)\<close>.
\<close>

definition isValid :: "env \<Rightarrow> event list \<Rightarrow> TokenRecord \<Rightarrow> bool" where
  "isValid e tr t =
     (let now = int (date_now e tr div 1000) in
      case expires_at t of
        None \<Rightarrow> False
      | Some ea \<Rightarrow> ea \<noteq> 0 \<and> now < ea - RENEW_TOKEN_BUFFER_SEC)"

section \<open>Silent refresh\<close>

text \<open>The record that \<^verbatim>\<open>tryRefresh\<close> builds from the response and the previous record.\<close>

definition refreshed_record :: "TokenEndpointResponse \<Rightarrow> TokenRecord \<Rightarrow> int \<Rightarrow> TokenRecord" where
  "refreshed_record res token nowSec =
     \<lparr>access_token = Some (res_access_token res),
      refresh_token = (case res_refresh_token res of Some r \<Rightarrow> Some r | None \<Rightarrow> refresh_token token),
      id_token = res_id_token res,
      token_type = Some (res_token_type res),
      scope = res_scope res,
      expires_in = res_expires_in res,
      expires_at = (case res_expires_in res of Some n \<Rightarrow> Some (nowSec + n) | None \<Rightarrow> expires_at token)\<rparr>"

text \<open>The \<^verbatim>\<open>try\<close> block of \<^verbatim>\<open>tryRefresh\<close>.\<close>

definition tryRefresh_try ::
  "env \<Rightarrow> TokenRecord \<Rightarrow> manager \<times> event list \<Rightarrow> (js_error + TokenRecord) \<times> manager \<times> event list" where
  "tryRefresh_try e token s =
     (case s of (m, tr) \<Rightarrow>
      (case discoveryWithRetry e 3 500 2000 tr of
         (Inl err, tr1) \<Rightarrow> (Inl err, m, tr1)
       | (Inr config, tr1) \<Rightarrow>
           (case refreshTokenGrant e tr1 config (refresh_token token) of
              Inl err \<Rightarrow> (Inl err, m, tr1 @ [RefreshGrant config (refresh_token token)])
            | Inr res \<Rightarrow>
                (let tr2 = tr1 @ [RefreshGrant config (refresh_token token)];
                     nowSec = int (date_now e tr2 div 1000);
                     next = refreshed_record res token nowSec
                 in case save e next tr2 of
                      (Inl err, tr3) \<Rightarrow> (Inl err, m, tr3)
                    | (Inr u, tr3) \<Rightarrow> (Inr next, m\<lparr>cached := Some next\<rparr>, tr3)))))"

text \<open>\<^verbatim>\<open>tryRefresh\<close>: the \<^verbatim>\<open>catch\<close> logs the error and answers \<^verbatim>\<open>null\<close>.\<close>

definition tryRefresh ::
  "env \<Rightarrow> TokenRecord \<Rightarrow> manager \<times> event list
     \<Rightarrow> (js_error + TokenRecord option) \<times> manager \<times> event list" where
  "tryRefresh e token s =
     (case tryRefresh_try e token s of
        (Inl err, m, tr') \<Rightarrow>
          (Inr None, m, tr' @ [ConsoleError ''OCA: refreshTokenGrant failed:'' (Some err)])
      | (Inr next, m, tr') \<Rightarrow> (Inr (Some next), m, tr'))"

section \<open>getValid\<close>

text \<open>The first lines of \<^verbatim>\<open>getValid\<close>: the cached record, or else the stored one.\<close>

definition cached_or_loaded ::
  "env \<Rightarrow> manager \<times> event list \<Rightarrow> (js_error + TokenRecord option) \<times> manager \<times> event list" where
  "cached_or_loaded e s =
     (case s of (m, tr) \<Rightarrow>
      (case cached m of
         Some t \<Rightarrow> (Inr (Some t), m, tr)
       | None \<Rightarrow>
           (case load e tr of
              (Inl err, tr1) \<Rightarrow> (Inl err, m, tr1)
            | (Inr None, tr1) \<Rightarrow> (Inr None, m, tr1)
            | (Inr (Some t), tr1) \<Rightarrow> (Inr (Some t), m\<lparr>cached := Some t\<rparr>, tr1))))"

text \<open>\<^verbatim>\<open>token?.refresh_token\<close> as a condition: present and not the empty string.\<close>

definition has_refresh_token :: "TokenRecord \<Rightarrow> bool" where
  "has_refresh_token t = (case refresh_token t of None \<Rightarrow> False | Some r \<Rightarrow> r \<noteq> [])"

definition getValid ::
  "env \<Rightarrow> manager \<times> event list \<Rightarrow> (js_error + TokenRecord option) \<times> manager \<times> event list" where
  "getValid e s =
     (case cached_or_loaded e s of
        (Inl err, m, tr) \<Rightarrow> (Inl err, m, tr)
      | (Inr None, m, tr) \<Rightarrow> (Inr None, m, tr)
      | (Inr (Some token), m, tr) \<Rightarrow>
          if isValid e tr token then (Inr (Some token), m, tr)
          else if has_refresh_token token then
            (case tryRefresh e token (m, tr) of
               (Inl err, s') \<Rightarrow> (Inl err, s')
             | (Inr (Some refreshed), s') \<Rightarrow> (Inr (Some refreshed), s')
             | (Inr None, s') \<Rightarrow> (Inr None, s'))
          else (Inr None, m, tr))"

section \<open>Error messages\<close>

text \<open>\<^verbatim>\<open>toLowerCase\<close>, on the ASCII letters.\<close>

definition toLowerCase :: "string \<Rightarrow> string" where
  "toLowerCase s =
     map (\<lambda>c. if 65 \<le> (of_char c :: nat) \<and> (of_char c :: nat) \<le> 90
               then char_of ((of_char c :: nat) + 32) else c) s"

fun startsWith :: "string \<Rightarrow> string \<Rightarrow> bool" where
  "startsWith s [] = True"
| "startsWith [] (c # cs) = False"
| "startsWith (x # xs) (c # cs) = (x = c \<and> startsWith xs cs)"

text \<open>\<^verbatim>\<open>String.prototype.includes\<close>\<close>

fun string_includes :: "string \<Rightarrow> string \<Rightarrow> bool" where
  "string_includes [] sub = (sub = [])"
| "string_includes (x # xs) sub = (startsWith (x # xs) sub \<or> string_includes xs sub)"

definition PORT_IN_USE_MESSAGE :: string where
  "PORT_IN_USE_MESSAGE =
     ''Login failed: local callback port is in use. Close other sign-in attempts or try again.''"

definition NO_PORT_MESSAGE :: string where
  "NO_PORT_MESSAGE = ''Failed to start local callback server on any configured port''"

definition formatOcaError :: "js_error \<Rightarrow> string" where
  "formatOcaError anyErr =
     (let raw = (if truthy (error_description anyErr) then error_description anyErr
                 else if truthy (message anyErr) then message anyErr
                 else Some (JStr (as_String anyErr)));
          msg = (case raw of
                   Some (JStr s) \<Rightarrow> s
                 | _ \<Rightarrow> ''Authentication failed. Please try again.'');
          lower = toLowerCase msg
      in if code anyErr = Some ''EADDRINUSE'' then PORT_IN_USE_MESSAGE
         else if string_includes lower ''getaddrinfo'' \<or> string_includes lower ''econnrefused''
                 \<or> string_includes lower ''network'' \<or> string_includes lower ''fetch failed''
                 \<or> string_includes lower ''dns''
           then ''Cannot reach Oracle IDCS. Check Proxy/Internet/VPN connectivity, follow OCA troubleshooting gudlines and try again.''
         else if string_includes lower ''openid-configuration'' \<or> string_includes lower ''well-known''
           then ''Failed to discover identity configuration. Verify the IDCS URL and network connectivity.''
         else msg)"

section \<open>The callback listener\<close>

text \<open>
  One HTTP server made by \<^verbatim>\<open>attemptOnPort\<close>, once it is bound. \<open>document\<close> is the
  \<^verbatim>\<open>config\<close> that its request handler has captured. \<open>settled\<close> is the promise of
  \<^verbatim>\<open>attemptOnPort\<close>: it settles once, later calls of \<^verbatim>\<open>resolve\<close> and \<^verbatim>\<open>reject\<close> change
  nothing. \<open>awaiting\<close> lists the callback requests whose handler is suspended in
  \<^verbatim>\<open>await authorizationCodeGrant\<close>; a request is named by its number of arrival.
\<close>

record listener =
  document :: OidcDiscoveryConfig
  port :: nat
  listening :: bool
  arrived :: nat
  awaiting :: "nat list"
  settled :: "(js_error + TokenEndpointResponse) option"
  calls :: "event list"

definition bound_listener :: "OidcDiscoveryConfig \<Rightarrow> nat \<Rightarrow> listener" where
  "bound_listener config p =
     \<lparr>document = config, port = p, listening = True, arrived = 0, awaiting = [],
      settled = None, calls = []\<rparr>"

text \<open>
  The request handler up to its \<^verbatim>\<open>await\<close>. The argument is the path of the request's URL,
  \<open>None\<close> when \<^verbatim>\<open>req.url\<close> is missing.
\<close>

definition on_request :: "string option \<Rightarrow> listener \<Rightarrow> listener" where
  "on_request url l =
     (case url of
        None \<Rightarrow> l\<lparr>arrived := arrived l + 1\<rparr>
      | Some pathname \<Rightarrow>
          if pathname \<noteq> ''/callback'' then l\<lparr>arrived := arrived l + 1\<rparr>
          else l\<lparr>arrived := arrived l + 1,
                 awaiting := awaiting l @ [arrived l],
                 calls := calls l @ [CodeGrant (document l) (port l) (arrived l)]\<rparr>)"

text \<open>\<^verbatim>\<open>resolve\<close> and \<^verbatim>\<open>reject\<close> of a promise.\<close>

definition settle :: "'a \<Rightarrow> 'a option \<Rightarrow> 'a option" where
  "settle outcome p = (case p of None \<Rightarrow> Some outcome | Some first \<Rightarrow> Some first)"

text \<open>The handler of request \<open>i\<close> after its \<^verbatim>\<open>await\<close>: the two branches of its \<^verbatim>\<open>try/catch\<close>.\<close>

definition on_grant_settled :: "nat \<Rightarrow> js_error + TokenEndpointResponse \<Rightarrow> listener \<Rightarrow> listener" where
  "on_grant_settled i outcome l =
     (case outcome of
        Inr t \<Rightarrow>
          l\<lparr>awaiting := removeAll i (awaiting l),
            calls := calls l @ [Respond (port l) i 200, ServerClose (port l)],
            listening := False,
            settled := settle (Inr t) (settled l)\<rparr>
      | Inl err \<Rightarrow>
          l\<lparr>awaiting := removeAll i (awaiting l),
            calls := calls l @ [Respond (port l) i 400, ServerClose (port l)],
            listening := False,
            settled := settle (Inl err) (settled l)\<rparr>)"

text \<open>
  What the runtime does with an input. \<^verbatim>\<open>server.close()\<close> stops the server from
  accepting new connections and leaves the open ones: a request on a new connection
  reaches the handler only while the server listens, a request on a connection that is
  open already reaches it in any case. A code exchange settles only for a request that
  awaits it, and then the handler goes on, whether the server still listens or not.
\<close>

definition deliver :: "listener_input \<Rightarrow> listener \<Rightarrow> listener" where
  "deliver inp l =
     (case inp of
        Request c url \<Rightarrow>
          if listening l \<or> c = OpenConnection then on_request url l else l
      | GrantSettles i outcome \<Rightarrow>
          if List.member (awaiting l) i then on_grant_settled i outcome l else l)"

fun run_listener :: "listener_input list \<Rightarrow> listener \<Rightarrow> listener" where
  "run_listener [] l = l"
| "run_listener (inp # inps) l = run_listener inps (deliver inp l)"

text \<open>The inputs up to the one that settles the promise: what its awaiter waits for.\<close>

fun await_listener :: "listener_input list \<Rightarrow> listener \<Rightarrow> listener" where
  "await_listener [] l = l"
| "await_listener (inp # inps) l =
     (if settled l = None then await_listener inps (deliver inp l) else l)"

text \<open>
  What a listener calls: code exchanges with the document that its handler has captured,
  answers, and \<^verbatim>\<open>server.close()\<close>.
\<close>

definition listener_call :: "listener \<Rightarrow> event \<Rightarrow> bool" where
  "listener_call l x \<longleftrightarrow>
     (\<exists>i. x = CodeGrant (document l) (port l) i)
   \<or> (\<exists>i status. x = Respond (port l) i status)
   \<or> x = ServerClose (port l)"

section \<open>Interactive login\<close>

text \<open>The decimal digits of a port number.\<close>

fun decimal :: "nat \<Rightarrow> string" where
  "decimal n = (if n < 10 then [char_of (48 + n)] else decimal (n div 10) @ [char_of (48 + n mod 10)])"

definition REDIRECT_URI_TEMPLATE :: "nat \<Rightarrow> string" where
  "REDIRECT_URI_TEMPLATE p = ''http://localhost:'' @ decimal p @ ''/callback''"

definition port_in_use_error :: js_error where
  "port_in_use_error = (new_Error ''Port in use'')\<lparr>code := Some ''EADDRINUSE''\<rparr>"

text \<open>The callback of \<^verbatim>\<open>server.listen\<close>: two calls, each in a \<^verbatim>\<open>try/catch\<close> that logs.\<close>

definition on_listening :: "env \<Rightarrow> string \<Rightarrow> event list" where
  "on_listening e href =
     (PostAuthUrl href #
        (case postAuthUrl e href of
           Some err \<Rightarrow> [ConsoleError ''OCA: postAuthUrl callback threw:'' (Some err)]
         | None \<Rightarrow> []))
     @ (OpenExternal href #
        (case openExternal e href of
           Some err \<Rightarrow> [ConsoleError ''OCA: failed to openExternal:'' (Some err)]
         | None \<Rightarrow> []))"

text \<open>
  \<^verbatim>\<open>attemptOnPort\<close>. The answer is the promise when nothing more arrives: \<open>None\<close> is a
  promise that never settles. The URL builder and the two PKCE functions of the library
  are taken to return.
\<close>

definition attemptOnPort ::
  "env \<Rightarrow> OidcDiscoveryConfig \<Rightarrow> string option \<Rightarrow> nat \<Rightarrow> event list
     \<Rightarrow> (js_error + TokenEndpointResponse) option \<times> event list" where
  "attemptOnPort e config code_challenge p tr =
     (let redirectUri = REDIRECT_URI_TEMPLATE p;
          href = buildAuthorizationUrl e config redirectUri
                   (if DEFAULT_INTERNAL_USE_PKCE e \<and> code_challenge \<noteq> None \<and> code_challenge \<noteq> Some []
                    then code_challenge else None)
      in case server_listen e tr p of
           Some err \<Rightarrow>
             if code err = Some ''EADDRINUSE''
             then (Some (Inl port_in_use_error), tr @ [Listen p, ServerClose p])
             else (Some (Inl err), tr @ [Listen p])
         | None \<Rightarrow>
             (let tr1 = tr @ [Listen p] @ on_listening e href;
                  l = await_listener (inbound e tr1 p) (bound_listener config p)
              in (settled l, tr1 @ calls l)))"

text \<open>
  The \<^verbatim>\<open>for\<close> loop over the candidate ports. It is left with \<^verbatim>\<open>tokens\<close> and
  \<^verbatim>\<open>lastError\<close> (\<open>Exited\<close>), by a \<^verbatim>\<open>throw\<close> (\<open>Thrown\<close>), or never (\<open>Waiting\<close>).
\<close>

datatype loop_exit =
    Waiting
  | Thrown js_error
  | Exited "TokenEndpointResponse option" "js_error option"

fun port_loop ::
  "env \<Rightarrow> OidcDiscoveryConfig \<Rightarrow> string option \<Rightarrow> nat list \<Rightarrow> js_error option \<Rightarrow> event list
     \<Rightarrow> loop_exit \<times> event list" where
  "port_loop e config code_challenge [] lastError tr = (Exited None lastError, tr)"
| "port_loop e config code_challenge (p # ps) lastError tr =
     (case attemptOnPort e config code_challenge p tr of
        (None, tr') \<Rightarrow> (Waiting, tr')
      | (Some (Inr tokens), tr') \<Rightarrow> (Exited (Some tokens) lastError, tr')
      | (Some (Inl err), tr') \<Rightarrow>
          if code err = Some ''EADDRINUSE''
          then port_loop e config code_challenge ps (Some err) tr'
          else (Thrown (new_Error (formatOcaError err)), tr'))"

text \<open>The record that \<^verbatim>\<open>runInteractiveLogin\<close> builds from the token response.\<close>

definition login_record :: "TokenEndpointResponse \<Rightarrow> int \<Rightarrow> TokenRecord" where
  "login_record tokens nowSec =
     \<lparr>access_token = Some (res_access_token tokens),
      refresh_token = res_refresh_token tokens,
      id_token = res_id_token tokens,
      token_type = Some (res_token_type tokens),
      scope = res_scope tokens,
      expires_in = res_expires_in tokens,
      expires_at = (case res_expires_in tokens of Some n \<Rightarrow> Some (nowSec + n) | None \<Rightarrow> None)\<rparr>"

text \<open>
  \<^verbatim>\<open>runInteractiveLogin\<close>: \<open>None\<close> is a login that never settles, \<open>Some (Inl err)\<close> a
  rejection, \<open>Some (Inr t)\<close> the record it resolves with.
\<close>

definition runInteractiveLogin ::
  "env \<Rightarrow> manager \<times> event list \<Rightarrow> (js_error + TokenRecord) option \<times> manager \<times> event list" where
  "runInteractiveLogin e s =
     (case s of (m, tr) \<Rightarrow>
      (case discoveryWithRetry e 3 500 2000 tr of
         (Inl err, tr1) \<Rightarrow>
           (Some (Inl (if instanceof_Error err then err else new_Error (formatOcaError err))), m, tr1)
       | (Inr config, tr1) \<Rightarrow>
           (let code_verifier =
                  (if DEFAULT_INTERNAL_USE_PKCE e then Some (randomPKCECodeVerifier e tr1) else None);
                code_challenge = map_option (calculatePKCECodeChallenge e) code_verifier
            in case port_loop e config code_challenge (DEFAULT_INTERNAL_IDCS_PORT_CANDIDATES e) None tr1 of
                 (Waiting, tr2) \<Rightarrow> (None, m, tr2)
               | (Thrown err, tr2) \<Rightarrow> (Some (Inl err), m, tr2)
               | (Exited None lastError, tr2) \<Rightarrow>
                   (Some (Inl (new_Error (formatOcaError
                      (case lastError of Some err \<Rightarrow> err | None \<Rightarrow> new_Error NO_PORT_MESSAGE)))),
                    m, tr2)
               | (Exited (Some tokens) lastError, tr2) \<Rightarrow>
                   (let nowSec = int (date_now e tr2 div 1000);
                        tokenSet = login_record tokens nowSec
                    in case save e tokenSet tr2 of
                         (Inl err, tr3) \<Rightarrow> (Some (Inl err), m, tr3)
                       | (Inr u, tr3) \<Rightarrow> (Some (Inr tokenSet), m\<lparr>cached := Some tokenSet\<rparr>, tr3)))))"

text \<open>
  \<open>made_with e config evs\<close>: every code exchange in \<open>evs\<close> is called with \<open>config\<close>, and
  every URL posted in \<open>evs\<close> was built from \<open>config\<close>.
\<close>

definition made_with :: "env \<Rightarrow> OidcDiscoveryConfig \<Rightarrow> event list \<Rightarrow> bool" where
  "made_with e config evs \<longleftrightarrow>
     (\<forall>c q i. CodeGrant c q i \<in> set evs \<longrightarrow> c = config)
   \<and> (\<forall>href. PostAuthUrl href \<in> set evs \<longrightarrow>
         (\<exists>q ch. href = buildAuthorizationUrl e config (REDIRECT_URI_TEMPLATE q) ch))"

section \<open>Single-flight login and logout\<close>

text \<open>
  Tasks interleave at their \<^verbatim>\<open>await\<close>s only, so the code between two \<^verbatim>\<open>await\<close>s is one
  step. \<open>tasks\<close> holds the promise of every \<^verbatim>\<open>runInteractiveLogin\<close> started so far; the
  handle of a promise is its index.
\<close>

datatype task = InFlight | Settled "js_error + TokenRecord"

record runtime =
  statics :: manager
  tasks :: "task list"

definition start_runtime :: runtime where
  "start_runtime = \<lparr>statics = \<lparr>cached = None, inflightLogin = None\<rparr>, tasks = []\<rparr>"

datatype returned = Token TokenRecord | Promise nat

text \<open>
  \<^verbatim>\<open>loginWithoutAutoOpen\<close> from the point where \<^verbatim>\<open>await this.getValid()\<close> hands it
  \<open>existing\<close>, to its \<^verbatim>\<open>return\<close>.
\<close>

definition login_resumes :: "TokenRecord option \<Rightarrow> runtime \<Rightarrow> returned \<times> runtime" where
  "login_resumes existing rt =
     (case existing of
        Some t \<Rightarrow> (Token t, rt)
      | None \<Rightarrow>
          (case inflightLogin (statics rt) of
             Some p \<Rightarrow> (Promise p, rt)
           | None \<Rightarrow>
               (Promise (length (tasks rt)),
                rt\<lparr>tasks := tasks rt @ [InFlight],
                   statics := (statics rt)\<lparr>inflightLogin := Some (length (tasks rt))\<rparr>\<rparr>)))"

text \<open>
  The login with handle \<open>p\<close> settles: on success it has set \<^verbatim>\<open>cached\<close>; then the
  \<^verbatim>\<open>finally\<close> callback runs.
\<close>

definition login_settles :: "nat \<Rightarrow> js_error + TokenRecord \<Rightarrow> runtime \<Rightarrow> runtime" where
  "login_settles p outcome rt =
     (if p < length (tasks rt) \<and> tasks rt ! p = InFlight then
        rt\<lparr>tasks := (tasks rt)[p := Settled outcome],
           statics := (statics rt)
             \<lparr>cached := (case outcome of Inr t \<Rightarrow> Some t | Inl err \<Rightarrow> cached (statics rt)),
              inflightLogin := None\<rparr>\<rparr>
      else rt)"

text \<open>The two assignments that \<^verbatim>\<open>logout\<close> makes before its \<^verbatim>\<open>await\<close>.\<close>

definition logout_fields :: "manager \<Rightarrow> manager" where
  "logout_fields m = m\<lparr>cached := None, inflightLogin := None\<rparr>"

text \<open>\<^verbatim>\<open>logout\<close>: a failure of \<^verbatim>\<open>secrets.delete\<close> is dropped.\<close>

definition logout :: "env \<Rightarrow> manager \<times> event list \<Rightarrow> manager \<times> event list" where
  "logout e s =
     (case s of (m, tr) \<Rightarrow>
      (case secrets_delete e tr of
         Some err \<Rightarrow> (logout_fields m, tr @ [SecretsDelete])
       | None \<Rightarrow> (logout_fields m, tr @ [SecretsDelete])))"

datatype step =
    LoginResumes "TokenRecord option"
  | LoginSettles nat "js_error + TokenRecord"
  | LogoutCalled

fun do_step :: "step \<Rightarrow> runtime \<Rightarrow> runtime" where
  "do_step (LoginResumes existing) rt = snd (login_resumes existing rt)"
| "do_step (LoginSettles p outcome) rt = login_settles p outcome rt"
| "do_step LogoutCalled rt = rt\<lparr>statics := logout_fields (statics rt)\<rparr>"

fun run :: "step list \<Rightarrow> runtime \<Rightarrow> runtime" where
  "run [] rt = rt"
| "run (st # sts) rt = run sts (do_step st rt)"

fun is_logout :: "step \<Rightarrow> bool" where
  "is_logout LogoutCalled = True"
| "is_logout (LoginResumes existing) = False"
| "is_logout (LoginSettles p outcome) = False"

definition in_flight :: "runtime \<Rightarrow> bool" where
  "in_flight rt = List.member (tasks rt) InFlight"

text \<open>A run in which \<^verbatim>\<open>logout\<close> is called only while no login is in flight.\<close>

fun logouts_idle :: "step list \<Rightarrow> runtime \<Rightarrow> bool" where
  "logouts_idle [] rt = True"
| "logouts_idle (st # sts) rt =
     ((if is_logout st then \<not> in_flight rt else True) \<and> logouts_idle sts (do_step st rt))"

section \<open>Environments for the worked examples\<close>

definition quiet_env :: env where
  "quiet_env =
     \<lparr>secrets_get = (\<lambda>h. Inr None),
      secrets_store = (\<lambda>h s. None),
      secrets_delete = (\<lambda>h. None),
      JSON_parse = (\<lambda>s. Inr None),
      JSON_stringify = (\<lambda>t. ''{}''),
      discovery = (\<lambda>h. Inr (ProviderMetadata ''idcs'')),
      refreshTokenGrant = (\<lambda>h c r. Inl (new_Error ''invalid_grant'')),
      date_now = (\<lambda>h. 1000000),
      math_random = (\<lambda>h. 1 / 4),
      server_listen = (\<lambda>h p. None),
      inbound = (\<lambda>h p. []),
      postAuthUrl = (\<lambda>u. None),
      openExternal = (\<lambda>u. None),
      randomPKCECodeVerifier = (\<lambda>h. ''verifier''),
      calculatePKCECodeChallenge = (\<lambda>v. ''challenge''),
      buildAuthorizationUrl = (\<lambda>c r ch. ''https://idcs/authorize''),
      DEFAULT_INTERNAL_IDCS_PORT_CANDIDATES = [8669, 8670],
      DEFAULT_INTERNAL_USE_PKCE = True\<rparr>"

text \<open>Discovery fails for the first \<open>n\<close> calls of the process, then succeeds.\<close>

definition flaky_env :: "nat \<Rightarrow> env" where
  "flaky_env n = quiet_env\<lparr>discovery :=
     (\<lambda>h. if count_list h Discovery < n then Inl (new_Error ''fetch failed'')
          else Inr (ProviderMetadata ''idcs''))\<rparr>"

definition stale_token :: TokenRecord where
  "stale_token =
     \<lparr>access_token = Some ''at1'', refresh_token = Some ''rt1'', id_token = None,
      token_type = Some ''Bearer'', scope = None, expires_in = Some 3600,
      expires_at = Some 900\<rparr>"

definition fresh_token :: TokenRecord where
  "fresh_token = stale_token\<lparr>expires_at := Some 4600\<rparr>"

definition short_response :: TokenEndpointResponse where
  "short_response =
     \<lparr>res_access_token = ''at2'', res_refresh_token = None, res_id_token = None,
      res_token_type = ''Bearer'', res_scope = None, res_expires_in = Some 60\<rparr>"

definition refresh_env :: env where
  "refresh_env = quiet_env\<lparr>refreshTokenGrant := (\<lambda>h c r. Inr short_response)\<rparr>"

definition bare_response :: TokenEndpointResponse where
  "bare_response =
     \<lparr>res_access_token = ''at3'', res_refresh_token = None, res_id_token = None,
      res_token_type = ''Bearer'', res_scope = None, res_expires_in = None\<rparr>"

definition bare_env :: env where
  "bare_env = quiet_env\<lparr>refreshTokenGrant := (\<lambda>h c r. Inr bare_response)\<rparr>"

definition login_env :: env where
  "login_env = refresh_env\<lparr>inbound :=
     (\<lambda>h p. [Request NewConnection (Some ''/favicon.ico''),
             Request OpenConnection (Some ''/callback''),
             GrantSettles 1 (Inr short_response)])\<rparr>"

definition no_token :: manager where
  "no_token = \<lparr>cached = None, inflightLogin = None\<rparr>"

definition eacces :: js_error where
  "eacces = \<lparr>instanceof_Error = True, code = Some ''EACCES'', error_description = None,
     message = Some (JStr ''listen EACCES: permission denied 127.0.0.1:8670''),
     as_String = ''Error: listen EACCES: permission denied 127.0.0.1:8670''\<rparr>"

definition eaddrinuse :: js_error where
  "eaddrinuse = \<lparr>instanceof_Error = True, code = Some ''EADDRINUSE'', error_description = None,
     message = Some (JStr ''listen EADDRINUSE: address already in use''),
     as_String = ''Error: listen EADDRINUSE: address already in use''\<rparr>"

text \<open>The first candidate port is taken, the second may not be bound.\<close>

definition denied_env :: env where
  "denied_env = quiet_env\<lparr>server_listen :=
     (\<lambda>h p. if p = 8669 then Some eaddrinuse else Some eacces)\<rparr>"

text \<open>Every port is taken.\<close>

definition crowded_env :: env where
  "crowded_env = quiet_env\<lparr>server_listen := (\<lambda>h p. Some eaddrinuse)\<rparr>"

definition stale_cache :: manager where
  "stale_cache = \<lparr>cached = Some stale_token, inflightLogin = None\<rparr>"

definition short_token :: TokenRecord where
  "short_token = stale_token\<lparr>access_token := Some ''at2'', expires_in := Some 60,
     expires_at := Some 1060\<rparr>"


definition unreadable_env :: env where
  "unreadable_env = quiet_env\<lparr>secrets_get := (\<lambda>h. Inl (new_Error ''keychain is locked''))\<rparr>"

definition garbled_env :: env where
  "garbled_env = quiet_env\<lparr>secrets_get := (\<lambda>h. Inr (Some ''{not json'')),
     JSON_parse := (\<lambda>s. Inl (new_Error ''Unexpected token n in JSON''))\<rparr>"

definition full_env :: env where
  "full_env = refresh_env\<lparr>secrets_store := (\<lambda>h s. Some (new_Error ''disk full''))\<rparr>"

section \<open>The retrier: properties\<close>

declare discovery_loop.simps [simp del]

lemma halvings_numeral:
  "halvings (numeral k) x = (if x < 2 then 0 else Suc (halvings (pred_numeral k) (x / 2)))"
  by (simp add: numeral_eq_Suc)

lemma doublings_numeral:
  "doublings (numeral k) x = (if 1 \<le> x then 0 else Suc (doublings (pred_numeral k) (x * 2)))"
  by (simp add: numeral_eq_Suc)













lemma backoff_defaults:
  "backoff 500 2000 0 = 500" "backoff 500 2000 1 = 1000" "backoff 500 2000 2 = 2000"
  "backoff 500 2000 3 = 2000"
  by (simp_all add: backoff_def to_double_def ulp_def halvings_numeral doublings_numeral
      round_half_even_def)









text \<open>
  The arithmetic of doubles shows in the wait. With this draw the exact product lies just
  below 281.5 ms and would round to 281; the product of the doubles is rounded to the
  double 281.5, and the wait is 282 ms.
\<close>

lemma delay_in_doubles:
  "delay 500 2000 0 (283726776524341 / 4503599627370496) = 282
   \<and> Math_round (500 * (1 / 2 + 283726776524341 / 4503599627370496)) = 281"
proof -
  have j: "jitter (283726776524341 / 4503599627370496) = 2535526590209589 / 4503599627370496"
    by (simp add: jitter_def to_double_def ulp_def halvings_numeral doublings_numeral
        round_half_even_def floor_eq_iff)
  have f: "\<lfloor>316940823776198625 / 64 :: rat\<rfloor> = 4952200371503103"
    by (simp add: floor_eq_iff)
  have p: "to_double (500 * (2535526590209589 / 4503599627370496)) = 563 / 2"
    by (simp add: to_double_def ulp_def halvings_numeral doublings_numeral
        round_half_even_def f)
  have "delay 500 2000 0 (283726776524341 / 4503599627370496) = 282"
    unfolding delay_def backoff_defaults j p by (simp add: Math_round_def floor_eq_iff)
  moreover have "Math_round (500 * (1 / 2 + 283726776524341 / 4503599627370496)) = 281"
    by (simp add: Math_round_def floor_eq_iff)
  ultimately show ?thesis by simp
qed

lemma jitter_quarter: "jitter (1 / 4) = 3 / 4"
  by (simp add: jitter_def to_double_def ulp_def halvings_numeral doublings_numeral
      round_half_even_def)

lemma delay_quarter:
  "delay 500 2000 0 (1 / 4) = 375" "delay 500 2000 1 (1 / 4) = 750"
  "delay 500 2000 2 (1 / 4) = 1500"
  unfolding delay_def backoff_defaults jitter_quarter
  by (simp_all add: Math_round_def to_double_def ulp_def halvings_numeral doublings_numeral
      round_half_even_def floor_eq_iff)

lemma delay_quarter_Suc:
  "delay 500 2000 (Suc 0) (1 / 4) = 750" "delay 500 2000 (Suc (Suc 0)) (1 / 4) = 1500"
  using delay_quarter by (simp_all add: numeral_2_eq_2)

lemma loop_fail:
  "discovery_loop e r b m a l tr = (Inl x, tr') \<Longrightarrow> a \<le> r \<Longrightarrow>
     \<exists>h last. x = Some last \<and> discovery e h = Inl last \<and> tr' = h @ [Discovery] \<and>
       count_list tr' Discovery = count_list tr Discovery + (r - a) + 1"
proof (induction e r b m a l tr rule: discovery_loop.induct)
  case (1 e retries baseDelayMs maxDelayMs attempt lastErr tr)
  show ?case
  proof (cases "discovery e tr")
    case (Inr cfg)
    with "1.prems" show ?thesis
      by (subst (asm) discovery_loop.simps) simp
  next
    case (Inl err)
    show ?thesis
    proof (cases "attempt = retries")
      case True
      with Inl "1.prems" show ?thesis
        by (subst (asm) discovery_loop.simps) auto
    next
      case False
      with Inl "1.prems" have
        rec: "discovery_loop e retries baseDelayMs maxDelayMs (attempt + 1) (Some err)
           (tr @ [Discovery, Sleep (delay baseDelayMs maxDelayMs attempt
              (math_random e (tr @ [Discovery])))]) = (Inl x, tr')"
        by (subst (asm) discovery_loop.simps) simp
      from False "1.prems" have le: "attempt + 1 \<le> retries" by simp
      from "1.IH"[OF "1.prems"(2) Inl False rec le] "1.prems"(2) False
      show ?thesis by auto
    qed
  qed
qed

text \<open>When every attempt from \<open>a\<close> on fails, the loop is left by its \<^verbatim>\<open>break\<close>.\<close>

lemma loop_all_fail:
  assumes "\<forall>k. a \<le> k \<and> k \<le> r \<longrightarrow> (\<exists>err. discovery e (before_attempt e b m tr k) = Inl err)"
    and "a \<le> r"
  shows "\<exists>last. discovery e (before_attempt e b m tr r) = Inl last
         \<and> discovery_loop e r b m a l (before_attempt e b m tr a)
             = (Inl (Some last), before_attempt e b m tr r @ [Discovery])"
  using assms
proof (induction "r - a" arbitrary: a l)
  case 0
  then have a: "a = r" by simp
  from "0.prems"(1) a obtain err where "discovery e (before_attempt e b m tr r) = Inl err"
    by blast
  then show ?case
    unfolding a by (subst discovery_loop.simps) simp
next
  case (Suc n)
  then have lt: "a < r" and n: "n = r - Suc a" by simp_all
  from Suc.prems(1) lt obtain err where f: "discovery e (before_attempt e b m tr a) = Inl err"
    by (metis less_or_eq_imp_le order_refl)
  have "\<forall>k. Suc a \<le> k \<and> k \<le> r \<longrightarrow> (\<exists>err. discovery e (before_attempt e b m tr k) = Inl err)"
    using Suc.prems(1) by simp
  from Suc.hyps(1)[OF n this, of "Some err"] lt obtain last where
    last: "discovery e (before_attempt e b m tr r) = Inl last"
    and rec: "discovery_loop e r b m (Suc a) (Some err) (before_attempt e b m tr (Suc a))
             = (Inl (Some last), before_attempt e b m tr r @ [Discovery])"
    by auto
  have "discovery_loop e r b m a l (before_attempt e b m tr a)
      = discovery_loop e r b m (Suc a) (Some err) (before_attempt e b m tr (Suc a))"
    using lt f by (subst discovery_loop.simps) simp
  with last rec show ?case by simp
qed

lemma always_failing:
  "discoveryWithRetry (flaky_env 4) 3 500 2000 [] =
     (Inl (new_Error DISCOVERY_FAILED_MESSAGE),
      [Discovery, Sleep 375, Discovery, Sleep 750, Discovery, Sleep 1500, Discovery,
       ConsoleError ''OCA: OIDC discovery failed:'' (Some (new_Error ''fetch failed''))])"
proof -
  have r: "\<And>h. math_random (flaky_env 4) h = 1 / 4"
    by (simp add: flaky_env_def quiet_env_def)
  have d: "\<And>h. discovery (flaky_env 4) h =
      (if count_list h Discovery < 4 then Inl (new_Error ''fetch failed'')
       else Inr (ProviderMetadata ''idcs''))"
    by (simp add: flaky_env_def quiet_env_def)
  show ?thesis
    by (simp add: discoveryWithRetry_def discovery_loop.simps r d delay_quarter delay_quarter_Suc)
qed

text \<open>What a run of the retrier adds to the log.\<close>

lemma discovery_loop_resolves:
  "discovery_loop e r b m a l tr = (Inr config, tr') \<Longrightarrow>
   \<exists>mid. tr' = tr @ mid @ [Discovery] \<and> discovery e (tr @ mid) = Inr config"
proof (induction e r b m a l tr rule: discovery_loop.induct)
  case (1 e retries baseDelayMs maxDelayMs attempt lastErr tr)
  show ?case
  proof (cases "attempt \<le> retries")
    case False
    with "1.prems" show ?thesis by (subst (asm) discovery_loop.simps) simp
  next
    case le: True
    show ?thesis
    proof (cases "discovery e tr")
      case (Inr cfg)
      with le "1.prems" have "cfg = config" "tr' = tr @ [Discovery]"
        by (subst (asm) discovery_loop.simps, simp)+
      with Inr show ?thesis by (intro exI[of _ "[]"]) simp
    next
      case (Inl err)
      show ?thesis
      proof (cases "attempt = retries")
        case True
        with Inl "1.prems" show ?thesis by (subst (asm) discovery_loop.simps) simp
      next
        case False
        let ?w = "[Discovery, Sleep (delay baseDelayMs maxDelayMs attempt
              (math_random e (tr @ [Discovery])))]"
        from False le Inl "1.prems" have
          rec: "discovery_loop e retries baseDelayMs maxDelayMs (attempt + 1) (Some err)
             (tr @ ?w) = (Inr config, tr')"
          by (subst (asm) discovery_loop.simps) simp
        from "1.IH"[OF le Inl False rec] obtain mid where
          "tr' = (tr @ ?w) @ mid @ [Discovery]" "discovery e ((tr @ ?w) @ mid) = Inr config"
          by blast
        then show ?thesis by (intro exI[of _ "?w @ mid"]) simp
      qed
    qed
  qed
qed

lemma discovery_loop_extends:
  "\<exists>rest. snd (discovery_loop e r b m a l tr) = tr @ rest"
proof (induction e r b m a l tr rule: discovery_loop.induct)
  case (1 e retries baseDelayMs maxDelayMs attempt lastErr tr)
  show ?case
  proof (cases "attempt \<le> retries")
    case False
    then show ?thesis by (subst discovery_loop.simps) simp
  next
    case le: True
    show ?thesis
    proof (cases "discovery e tr")
      case (Inr cfg)
      with le show ?thesis by (subst discovery_loop.simps) simp
    next
      case (Inl err)
      show ?thesis
      proof (cases "attempt = retries")
        case True
        with Inl show ?thesis by (subst discovery_loop.simps) simp
      next
        case False
        from "1.IH"[OF le Inl False] obtain rest where
          "snd (discovery_loop e retries baseDelayMs maxDelayMs (attempt + 1) (Some err)
             (tr @ [Discovery, Sleep (delay baseDelayMs maxDelayMs attempt
              (math_random e (tr @ [Discovery])))])) =
           (tr @ [Discovery, Sleep (delay baseDelayMs maxDelayMs attempt
              (math_random e (tr @ [Discovery])))]) @ rest"
          by blast
        with False le Inl show ?thesis by (subst discovery_loop.simps) simp
      qed
    qed
  qed
qed

lemma discovery_loop_calls:
  assumes "a \<le> r"
  shows "\<exists>rest. snd (discovery_loop e r b m a l tr) = tr @ Discovery # rest"
proof (cases "discovery e tr")
  case (Inr cfg)
  with assms show ?thesis by (subst discovery_loop.simps) simp
next
  case (Inl err)
  show ?thesis
  proof (cases "a = r")
    case True
    with Inl show ?thesis by (subst discovery_loop.simps) simp
  next
    case False
    obtain rest where
      "snd (discovery_loop e r b m (a + 1) (Some err)
         (tr @ [Discovery, Sleep (delay b m a (math_random e (tr @ [Discovery])))])) =
       (tr @ [Discovery, Sleep (delay b m a (math_random e (tr @ [Discovery])))]) @ rest"
      using discovery_loop_extends by blast
    with False assms Inl show ?thesis by (subst discovery_loop.simps) simp
  qed
qed

lemma discoveryWithRetry_calls:
  "\<exists>rest. snd (discoveryWithRetry e r b m tr) = tr @ Discovery # rest"
proof -
  obtain rest where "snd (discovery_loop e r b m 0 None tr) = tr @ Discovery # rest"
    using discovery_loop_calls[of 0 r e b m None tr] by auto
  then show ?thesis
    by (cases "discovery_loop e r b m 0 None tr")
       (auto simp: discoveryWithRetry_def split: sum.splits)
qed

lemma discoveryWithRetry_resolves:
  "discoveryWithRetry e r b m tr = (Inr config, tr') \<Longrightarrow>
   \<exists>mid. tr' = tr @ mid @ [Discovery] \<and> discovery e (tr @ mid) = Inr config"
  by (cases "discovery_loop e r b m 0 None tr")
     (auto simp: discoveryWithRetry_def split: sum.splits dest: discovery_loop_resolves)




text \<open>
  Claim C8, as amended. When each of the \<open>retries + 1\<close> attempts fails,
  \<^verbatim>\<open>discoveryWithRetry\<close> throws, and it throws a new error with the fixed message about
  proxy settings; the error of the last attempt is written to the console and not
  thrown. Whenever it throws, it has made \<open>retries + 1\<close> calls of \<^verbatim>\<open>discovery\<close> and makes
  no further one.
\<close>

theorem retrier_final_failure:
  "((\<forall>k \<le> retries. \<exists>err. discovery e (before_attempt e b m tr k) = Inl err) \<longrightarrow>
      (\<exists>last. discovery e (before_attempt e b m tr retries) = Inl last
         \<and> discoveryWithRetry e retries b m tr =
             (Inl (new_Error DISCOVERY_FAILED_MESSAGE),
              before_attempt e b m tr retries
                @ [Discovery, ConsoleError ''OCA: OIDC discovery failed:'' (Some last)])))
   \<and> (fst (discoveryWithRetry e retries b m tr) = Inl err \<longrightarrow>
        err = new_Error DISCOVERY_FAILED_MESSAGE
      \<and> (\<exists>h last. discovery e h = Inl last
           \<and> snd (discoveryWithRetry e retries b m tr)
               = h @ [Discovery, ConsoleError ''OCA: OIDC discovery failed:'' (Some last)])
      \<and> count_list (snd (discoveryWithRetry e retries b m tr)) Discovery
          = count_list tr Discovery + retries + 1)"
proof (intro conjI impI)
  assume "\<forall>k \<le> retries. \<exists>err. discovery e (before_attempt e b m tr k) = Inl err"
  then have "\<forall>k. 0 \<le> k \<and> k \<le> retries \<longrightarrow>
      (\<exists>err. discovery e (before_attempt e b m tr k) = Inl err)" by simp
  from loop_all_fail[OF this, of None] obtain last where
    last: "discovery e (before_attempt e b m tr retries) = Inl last"
    and loop: "discovery_loop e retries b m 0 None tr
             = (Inl (Some last), before_attempt e b m tr retries @ [Discovery])"
    by auto
  from loop have "discoveryWithRetry e retries b m tr =
             (Inl (new_Error DISCOVERY_FAILED_MESSAGE),
              before_attempt e b m tr retries
                @ [Discovery, ConsoleError ''OCA: OIDC discovery failed:'' (Some last)])"
    by (simp add: discoveryWithRetry_def)
  with last show "\<exists>last. discovery e (before_attempt e b m tr retries) = Inl last
         \<and> discoveryWithRetry e retries b m tr =
             (Inl (new_Error DISCOVERY_FAILED_MESSAGE),
              before_attempt e b m tr retries
                @ [Discovery, ConsoleError ''OCA: OIDC discovery failed:'' (Some last)])"
    by blast
next
  assume thrown: "fst (discoveryWithRetry e retries b m tr) = Inl err"
  obtain r tr' where loop: "discovery_loop e retries b m 0 None tr = (r, tr')"
    by (cases "discovery_loop e retries b m 0 None tr")
  have "err = new_Error DISCOVERY_FAILED_MESSAGE
     \<and> (\<exists>h last. discovery e h = Inl last
           \<and> snd (discoveryWithRetry e retries b m tr)
               = h @ [Discovery, ConsoleError ''OCA: OIDC discovery failed:'' (Some last)])
     \<and> count_list (snd (discoveryWithRetry e retries b m tr)) Discovery
         = count_list tr Discovery + retries + 1"
  proof (cases r)
    case (Inr config)
    with loop thrown show ?thesis by (simp add: discoveryWithRetry_def)
  next
    case (Inl x)
    from loop_fail[OF loop[unfolded Inl]] obtain h last where
      x: "x = Some last" and d: "discovery e h = Inl last" and t: "tr' = h @ [Discovery]"
      and c: "count_list tr' Discovery = count_list tr Discovery + (retries - 0) + 1"
      by auto
    have res: "discoveryWithRetry e retries b m tr =
       (Inl (new_Error DISCOVERY_FAILED_MESSAGE),
        tr' @ [ConsoleError ''OCA: OIDC discovery failed:'' x])"
      using loop Inl by (simp add: discoveryWithRetry_def)
    from res thrown have "err = new_Error DISCOVERY_FAILED_MESSAGE" by simp
    moreover have "discovery e h = Inl last
           \<and> snd (discoveryWithRetry e retries b m tr)
               = h @ [Discovery, ConsoleError ''OCA: OIDC discovery failed:'' (Some last)]"
      using res d t x by simp
    moreover have "count_list (snd (discoveryWithRetry e retries b m tr)) Discovery
         = count_list tr Discovery + retries + 1"
      using res c by simp
    ultimately show ?thesis by blast
  qed
  then show "err = new_Error DISCOVERY_FAILED_MESSAGE"
    and "\<exists>h last. discovery e h = Inl last
           \<and> snd (discoveryWithRetry e retries b m tr)
               = h @ [Discovery, ConsoleError ''OCA: OIDC discovery failed:'' (Some last)]"
    and "count_list (snd (discoveryWithRetry e retries b m tr)) Discovery
         = count_list tr Discovery + retries + 1"
    by blast+
qed

theorem retrier_final_failure_witness:
  "discovery (flaky_env 4) (before_attempt (flaky_env 4) 500 2000 [] 0)
     = Inl (new_Error ''fetch failed'')
   \<and> discovery (flaky_env 4) (before_attempt (flaky_env 4) 500 2000 [] 1)
     = Inl (new_Error ''fetch failed'')
   \<and> discovery (flaky_env 4) (before_attempt (flaky_env 4) 500 2000 [] 2)
     = Inl (new_Error ''fetch failed'')
   \<and> discovery (flaky_env 4) (before_attempt (flaky_env 4) 500 2000 [] 3)
     = Inl (new_Error ''fetch failed'')
   \<and> discoveryWithRetry (flaky_env 4) 3 500 2000 [] =
       (Inl (new_Error DISCOVERY_FAILED_MESSAGE),
        [Discovery, Sleep 375, Discovery, Sleep 750, Discovery, Sleep 1500, Discovery,
         ConsoleError ''OCA: OIDC discovery failed:'' (Some (new_Error ''fetch failed''))])
   \<and> count_list (snd (discoveryWithRetry (flaky_env 4) 3 500 2000 [])) Discovery = 4"
proof -
  have r: "\<And>h. math_random (flaky_env 4) h = 1 / 4"
    by (simp add: flaky_env_def quiet_env_def)
  have b: "before_attempt (flaky_env 4) 500 2000 [] 0 = []"
    "before_attempt (flaky_env 4) 500 2000 [] 1 = [Discovery, Sleep 375]"
    "before_attempt (flaky_env 4) 500 2000 [] 2 = [Discovery, Sleep 375, Discovery, Sleep 750]"
    "before_attempt (flaky_env 4) 500 2000 [] 3 =
       [Discovery, Sleep 375, Discovery, Sleep 750, Discovery, Sleep 1500]"
    by (simp_all add: numeral_2_eq_2 numeral_3_eq_3 r delay_quarter delay_quarter_Suc)
  have d: "\<forall>h. count_list h Discovery < 4 \<longrightarrow>
      discovery (flaky_env 4) h = Inl (new_Error ''fetch failed'')"
    by (simp add: flaky_env_def quiet_env_def)
  have k: "\<And>k::nat. k \<le> 3 \<Longrightarrow> k = 0 \<or> k = 1 \<or> k = 2 \<or> k = 3" by arith
  have a: "\<forall>k \<le> 3. \<exists>err. discovery (flaky_env 4) (before_attempt (flaky_env 4) 500 2000 [] k) = Inl err"
  proof (intro allI impI)
    fix k :: nat
    assume "k \<le> 3"
    from k[OF this] show "\<exists>err. discovery (flaky_env 4) (before_attempt (flaky_env 4) 500 2000 [] k) = Inl err"
      using d by (auto simp: b)
  qed
  note t = retrier_final_failure[of 3 "flaky_env 4" 500 2000 "[]"
      "new_Error DISCOVERY_FAILED_MESSAGE"]
  from t a obtain last where
    l: "discovery (flaky_env 4) (before_attempt (flaky_env 4) 500 2000 [] 3) = Inl last"
    and res: "discoveryWithRetry (flaky_env 4) 3 500 2000 [] =
             (Inl (new_Error DISCOVERY_FAILED_MESSAGE),
              before_attempt (flaky_env 4) 500 2000 [] 3
                @ [Discovery, ConsoleError ''OCA: OIDC discovery failed:'' (Some last)])"
    by blast
  from l d have "last = new_Error ''fetch failed''" by (simp add: b)
  with res have res': "discoveryWithRetry (flaky_env 4) 3 500 2000 [] =
       (Inl (new_Error DISCOVERY_FAILED_MESSAGE),
        [Discovery, Sleep 375, Discovery, Sleep 750, Discovery, Sleep 1500, Discovery,
         ConsoleError ''OCA: OIDC discovery failed:'' (Some (new_Error ''fetch failed''))])"
    by (simp add: b)
  then have "fst (discoveryWithRetry (flaky_env 4) 3 500 2000 []) = Inl (new_Error DISCOVERY_FAILED_MESSAGE)"
    by simp
  with t have "count_list (snd (discoveryWithRetry (flaky_env 4) 3 500 2000 [])) Discovery = 4"
    by simp
  moreover have "discovery (flaky_env 4) (before_attempt (flaky_env 4) 500 2000 [] 0)
     = Inl (new_Error ''fetch failed'')"
    and "discovery (flaky_env 4) (before_attempt (flaky_env 4) 500 2000 [] 1)
     = Inl (new_Error ''fetch failed'')"
    and "discovery (flaky_env 4) (before_attempt (flaky_env 4) 500 2000 [] 2)
     = Inl (new_Error ''fetch failed'')"
    and "discovery (flaky_env 4) (before_attempt (flaky_env 4) 500 2000 [] 3)
     = Inl (new_Error ''fetch failed'')"
    using d by (simp_all add: b)
  ultimately show ?thesis using res' by blast
qed

text \<open>
  The claim as it was written says that the caller receives the error of the last attempt.
  Here every attempt fails with \<^verbatim>\<open>fetch failed\<close>; that error is logged, and the caller
  receives another one.
\<close>

theorem retrier_last_error_counterexample:
  "discovery (flaky_env 4) [Discovery, Sleep 375, Discovery, Sleep 750, Discovery, Sleep 1500]
     = Inl (new_Error ''fetch failed'')
   \<and> snd (discoveryWithRetry (flaky_env 4) 3 500 2000 [])
     = [Discovery, Sleep 375, Discovery, Sleep 750, Discovery, Sleep 1500, Discovery,
        ConsoleError ''OCA: OIDC discovery failed:'' (Some (new_Error ''fetch failed''))]
   \<and> fst (discoveryWithRetry (flaky_env 4) 3 500 2000 []) \<noteq> Inl (new_Error ''fetch failed'')"
proof -
  have "discovery (flaky_env 4) [Discovery, Sleep 375, Discovery, Sleep 750, Discovery, Sleep 1500]
     = Inl (new_Error ''fetch failed'')"
    by (simp add: flaky_env_def quiet_env_def)
  moreover have "new_Error DISCOVERY_FAILED_MESSAGE \<noteq> new_Error ''fetch failed''"
    by (simp add: new_Error_def DISCOVERY_FAILED_MESSAGE_def)
  ultimately show ?thesis by (simp add: always_failing)
qed

section \<open>getValid: properties\<close>

declare decimal.simps [simp del]

lemma load_returns: "\<exists>t tr'. load e tr = (Inr t, tr')"
  by (cases "load_try e tr") (auto simp: load_def split: sum.splits)

lemma tryRefresh_returns: "\<exists>r s'. tryRefresh e token s = (Inr r, s')"
  by (cases "tryRefresh_try e token s") (auto simp: tryRefresh_def split: sum.splits)

lemma cached_or_loaded_returns: "\<exists>r s'. cached_or_loaded e s = (Inr r, s')"
proof (cases s)
  case (Pair m tr)
  obtain t tr' where "load e tr = (Inr t, tr')" using load_returns by blast
  with Pair show ?thesis
    by (auto simp: cached_or_loaded_def split: option.splits)
qed

lemma discovery_first_try:
  "discovery e tr = Inr config \<Longrightarrow> discoveryWithRetry e r b m tr = (Inr config, tr @ [Discovery])"
  by (simp add: discoveryWithRetry_def discovery_loop.simps)

text \<open>
  Claim C2. \<^verbatim>\<open>getValid\<close> never throws: whatever the cache holds and whatever the
  environment answers, the call returns a record or \<^verbatim>\<open>null\<close>. And every failure on the
  way gives \<^verbatim>\<open>null\<close>: a store that cannot be read, a stored text that cannot be parsed,
  an empty store; and, for a record that is not valid any more, a missing refresh token,
  a discovery that fails, a refresh grant that fails, a write to the store that fails.
  A failed refresh leaves the fields of the manager as they were.
\<close>

theorem getValid_never_throws:
  "(\<exists>r s'. getValid e (m, tr) = (Inr r, s'))
   \<and> (cached m = None \<and> secrets_get e tr = Inl err \<longrightarrow>
        getValid e (m, tr) = (Inr None, m, tr @ [SecretsGet]))
   \<and> (cached m = None \<and> secrets_get e tr = Inr (Some json) \<and> JSON_parse e json = Inl err \<longrightarrow>
        getValid e (m, tr) = (Inr None, m, tr @ [SecretsGet]))
   \<and> (cached m = None \<and> (secrets_get e tr = Inr None \<or> secrets_get e tr = Inr (Some [])) \<longrightarrow>
        getValid e (m, tr) = (Inr None, m, tr @ [SecretsGet]))
   \<and> (cached_or_loaded e (m, tr) = (Inr (Some token), m1, tr1) \<and> \<not> isValid e tr1 token \<longrightarrow>
        (\<not> has_refresh_token token \<longrightarrow> getValid e (m, tr) = (Inr None, m1, tr1))
      \<and> (has_refresh_token token \<and> discoveryWithRetry e 3 500 2000 tr1 = (Inl err, tr2) \<longrightarrow>
           getValid e (m, tr) =
             (Inr None, m1, tr2 @ [ConsoleError ''OCA: refreshTokenGrant failed:'' (Some err)]))
      \<and> (has_refresh_token token \<and> discoveryWithRetry e 3 500 2000 tr1 = (Inr config, tr2)
            \<and> refreshTokenGrant e tr2 config (refresh_token token) = Inl err \<longrightarrow>
           getValid e (m, tr) =
             (Inr None, m1,
              tr2 @ [RefreshGrant config (refresh_token token),
                     ConsoleError ''OCA: refreshTokenGrant failed:'' (Some err)]))
      \<and> (has_refresh_token token \<and> discoveryWithRetry e 3 500 2000 tr1 = (Inr config, tr2)
            \<and> refreshTokenGrant e tr2 config (refresh_token token) = Inr res
            \<and> secrets_store e (tr2 @ [RefreshGrant config (refresh_token token)])
                 (JSON_stringify e (refreshed_record res token
                    (int (date_now e (tr2 @ [RefreshGrant config (refresh_token token)]) div 1000))))
               = Some err \<longrightarrow>
           getValid e (m, tr) =
             (Inr None, m1,
              tr2 @ [RefreshGrant config (refresh_token token),
                     SecretsStore (JSON_stringify e (refreshed_record res token
                       (int (date_now e (tr2 @ [RefreshGrant config (refresh_token token)]) div 1000)))),
                     ConsoleError ''OCA: refreshTokenGrant failed:'' (Some err)])))"
proof (intro conjI impI)
  obtain r s1 where c1: "cached_or_loaded e (m, tr) = (Inr r, s1)"
    using cached_or_loaded_returns[of e "(m, tr)"] by blast
  obtain m0 tr0 where s1: "s1 = (m0, tr0)" by (cases s1)
  have c: "cached_or_loaded e (m, tr) = (Inr r, m0, tr0)" using c1 s1 by simp
  show "\<exists>r s'. getValid e (m, tr) = (Inr r, s')"
  proof (cases r)
    case None
    with c show ?thesis by (simp add: getValid_def)
  next
    case (Some token)
    obtain r' s' where t: "tryRefresh e token (m0, tr0) = (Inr r', s')"
      using tryRefresh_returns by blast
    from c Some t show ?thesis
      by (cases r') (simp_all add: getValid_def)
  qed
next
  assume "cached m = None \<and> secrets_get e tr = Inl err"
  then show "getValid e (m, tr) = (Inr None, m, tr @ [SecretsGet])"
    by (simp add: getValid_def cached_or_loaded_def load_def load_try_def)
next
  assume "cached m = None \<and> secrets_get e tr = Inr (Some json) \<and> JSON_parse e json = Inl err"
  then show "getValid e (m, tr) = (Inr None, m, tr @ [SecretsGet])"
    by (simp add: getValid_def cached_or_loaded_def load_def load_try_def)
next
  assume "cached m = None \<and> (secrets_get e tr = Inr None \<or> secrets_get e tr = Inr (Some []))"
  then show "getValid e (m, tr) = (Inr None, m, tr @ [SecretsGet])"
    by (auto simp: getValid_def cached_or_loaded_def load_def load_try_def)
next
  assume a: "cached_or_loaded e (m, tr) = (Inr (Some token), m1, tr1) \<and> \<not> isValid e tr1 token"
  assume "\<not> has_refresh_token token"
  with a show "getValid e (m, tr) = (Inr None, m1, tr1)"
    by (simp add: getValid_def)
next
  assume a: "cached_or_loaded e (m, tr) = (Inr (Some token), m1, tr1) \<and> \<not> isValid e tr1 token"
  assume "has_refresh_token token \<and> discoveryWithRetry e 3 500 2000 tr1 = (Inl err, tr2)"
  with a show "getValid e (m, tr) =
             (Inr None, m1, tr2 @ [ConsoleError ''OCA: refreshTokenGrant failed:'' (Some err)])"
    by (simp add: getValid_def tryRefresh_def tryRefresh_try_def)
next
  assume a: "cached_or_loaded e (m, tr) = (Inr (Some token), m1, tr1) \<and> \<not> isValid e tr1 token"
  assume "has_refresh_token token \<and> discoveryWithRetry e 3 500 2000 tr1 = (Inr config, tr2)
            \<and> refreshTokenGrant e tr2 config (refresh_token token) = Inl err"
  with a show "getValid e (m, tr) =
             (Inr None, m1,
              tr2 @ [RefreshGrant config (refresh_token token),
                     ConsoleError ''OCA: refreshTokenGrant failed:'' (Some err)])"
    by (simp add: getValid_def tryRefresh_def tryRefresh_try_def)
next
  assume a: "cached_or_loaded e (m, tr) = (Inr (Some token), m1, tr1) \<and> \<not> isValid e tr1 token"
  assume "has_refresh_token token \<and> discoveryWithRetry e 3 500 2000 tr1 = (Inr config, tr2)
            \<and> refreshTokenGrant e tr2 config (refresh_token token) = Inr res
            \<and> secrets_store e (tr2 @ [RefreshGrant config (refresh_token token)])
                 (JSON_stringify e (refreshed_record res token
                    (int (date_now e (tr2 @ [RefreshGrant config (refresh_token token)]) div 1000))))
               = Some err"
  with a show "getValid e (m, tr) =
             (Inr None, m1,
              tr2 @ [RefreshGrant config (refresh_token token),
                     SecretsStore (JSON_stringify e (refreshed_record res token
                       (int (date_now e (tr2 @ [RefreshGrant config (refresh_token token)]) div 1000)))),
                     ConsoleError ''OCA: refreshTokenGrant failed:'' (Some err)])"
    by (simp add: getValid_def tryRefresh_def tryRefresh_try_def save_def Let_def)
qed

lemma stale_cache_loaded:
  "cached_or_loaded e (stale_cache, []) = (Inr (Some stale_token), stale_cache, [])"
  by (simp add: cached_or_loaded_def stale_cache_def)

lemma stale_token_stale: "date_now e tr = 1000000 \<Longrightarrow> \<not> isValid e tr stale_token"
  by (simp add: isValid_def stale_token_def RENEW_TOKEN_BUFFER_SEC_def)

theorem getValid_never_throws_witness:
  "getValid unreadable_env (no_token, []) = (Inr None, no_token, [SecretsGet])
   \<and> getValid garbled_env (no_token, []) = (Inr None, no_token, [SecretsGet])
   \<and> getValid quiet_env (no_token, []) = (Inr None, no_token, [SecretsGet])
   \<and> getValid quiet_env (no_token\<lparr>cached := Some (stale_token\<lparr>refresh_token := None\<rparr>)\<rparr>, [])
       = (Inr None, no_token\<lparr>cached := Some (stale_token\<lparr>refresh_token := None\<rparr>)\<rparr>, [])
   \<and> getValid (flaky_env 4) (stale_cache, []) =
       (Inr None, stale_cache,
        [Discovery, Sleep 375, Discovery, Sleep 750, Discovery, Sleep 1500, Discovery,
         ConsoleError ''OCA: OIDC discovery failed:'' (Some (new_Error ''fetch failed'')),
         ConsoleError ''OCA: refreshTokenGrant failed:''
           (Some (new_Error DISCOVERY_FAILED_MESSAGE))])
   \<and> getValid quiet_env (stale_cache, []) =
       (Inr None, stale_cache,
        [Discovery, RefreshGrant (ProviderMetadata ''idcs'') (Some ''rt1''),
         ConsoleError ''OCA: refreshTokenGrant failed:'' (Some (new_Error ''invalid_grant''))])
   \<and> getValid full_env (stale_cache, []) =
       (Inr None, stale_cache,
        [Discovery, RefreshGrant (ProviderMetadata ''idcs'') (Some ''rt1''), SecretsStore ''{}'',
         ConsoleError ''OCA: refreshTokenGrant failed:'' (Some (new_Error ''disk full''))])"
proof -
  have n: "cached no_token = None" by (simp add: no_token_def)
  have rt: "refresh_token stale_token = Some ''rt1''" by (simp add: stale_token_def)
  have hr: "has_refresh_token stale_token" by (simp add: has_refresh_token_def stale_token_def)
  \<comment> \<open>a store that cannot be read\<close>
  have "cached no_token = None \<and> secrets_get unreadable_env [] = Inl (new_Error ''keychain is locked'')"
    by (simp add: n unreadable_env_def)
  with getValid_never_throws[of unreadable_env no_token "[]" "new_Error ''keychain is locked''"]
  have g1: "getValid unreadable_env (no_token, []) = (Inr None, no_token, [SecretsGet])"
    by simp
  \<comment> \<open>a text that cannot be parsed\<close>
  have "cached no_token = None \<and> secrets_get garbled_env [] = Inr (Some ''{not json'')
      \<and> JSON_parse garbled_env ''{not json'' = Inl (new_Error ''Unexpected token n in JSON'')"
    by (simp add: n garbled_env_def)
  with getValid_never_throws[of garbled_env no_token "[]" "new_Error ''Unexpected token n in JSON''"
      "''{not json''"]
  have g2: "getValid garbled_env (no_token, []) = (Inr None, no_token, [SecretsGet])"
    by simp
  \<comment> \<open>an empty store\<close>
  have "cached no_token = None \<and> (secrets_get quiet_env [] = Inr None
      \<or> secrets_get quiet_env [] = Inr (Some []))"
    by (simp add: n quiet_env_def)
  with getValid_never_throws[of quiet_env no_token "[]"]
  have g3: "getValid quiet_env (no_token, []) = (Inr None, no_token, [SecretsGet])"
    by simp
  \<comment> \<open>an expired record without a refresh token\<close>
  let ?t = "stale_token\<lparr>refresh_token := None\<rparr>"
  have "cached_or_loaded quiet_env (no_token\<lparr>cached := Some ?t\<rparr>, [])
          = (Inr (Some ?t), no_token\<lparr>cached := Some ?t\<rparr>, [])
      \<and> \<not> isValid quiet_env [] ?t"
    by (simp add: cached_or_loaded_def isValid_def stale_token_def RENEW_TOKEN_BUFFER_SEC_def
        quiet_env_def)
  moreover have "\<not> has_refresh_token ?t" by (simp add: has_refresh_token_def)
  ultimately have g4: "getValid quiet_env (no_token\<lparr>cached := Some ?t\<rparr>, [])
       = (Inr None, no_token\<lparr>cached := Some ?t\<rparr>, [])"
    using getValid_never_throws[of quiet_env "no_token\<lparr>cached := Some ?t\<rparr>" "[]" _ _ ?t
        "no_token\<lparr>cached := Some ?t\<rparr>" "[]"]
    by blast
  \<comment> \<open>a discovery that fails\<close>
  have "cached_or_loaded (flaky_env 4) (stale_cache, []) = (Inr (Some stale_token), stale_cache, [])
      \<and> \<not> isValid (flaky_env 4) [] stale_token"
    by (simp add: stale_cache_loaded stale_token_stale flaky_env_def quiet_env_def)
  moreover have "has_refresh_token stale_token \<and> discoveryWithRetry (flaky_env 4) 3 500 2000 [] =
     (Inl (new_Error DISCOVERY_FAILED_MESSAGE),
      [Discovery, Sleep 375, Discovery, Sleep 750, Discovery, Sleep 1500, Discovery,
       ConsoleError ''OCA: OIDC discovery failed:'' (Some (new_Error ''fetch failed''))])"
    by (simp add: hr always_failing)
  ultimately have g5: "getValid (flaky_env 4) (stale_cache, []) =
       (Inr None, stale_cache,
        [Discovery, Sleep 375, Discovery, Sleep 750, Discovery, Sleep 1500, Discovery,
         ConsoleError ''OCA: OIDC discovery failed:'' (Some (new_Error ''fetch failed''))]
        @ [ConsoleError ''OCA: refreshTokenGrant failed:''
           (Some (new_Error DISCOVERY_FAILED_MESSAGE))])"
    using getValid_never_throws[of "flaky_env 4" stale_cache "[]" "new_Error DISCOVERY_FAILED_MESSAGE"
        _ stale_token stale_cache "[]"
        "[Discovery, Sleep 375, Discovery, Sleep 750, Discovery, Sleep 1500, Discovery,
       ConsoleError ''OCA: OIDC discovery failed:'' (Some (new_Error ''fetch failed''))]"]
    by blast
  \<comment> \<open>a refresh grant that fails\<close>
  have "cached_or_loaded quiet_env (stale_cache, []) = (Inr (Some stale_token), stale_cache, [])
      \<and> \<not> isValid quiet_env [] stale_token"
    by (simp add: stale_cache_loaded stale_token_stale quiet_env_def)
  moreover have "has_refresh_token stale_token
      \<and> discoveryWithRetry quiet_env 3 500 2000 [] = (Inr (ProviderMetadata ''idcs''), [Discovery])
      \<and> refreshTokenGrant quiet_env [Discovery] (ProviderMetadata ''idcs'') (refresh_token stale_token)
          = Inl (new_Error ''invalid_grant'')"
    using discovery_first_try[of quiet_env "[]" "ProviderMetadata ''idcs''" 3 500 2000]
    by (simp add: hr quiet_env_def)
  ultimately have g6: "getValid quiet_env (stale_cache, []) =
       (Inr None, stale_cache,
        [Discovery] @ [RefreshGrant (ProviderMetadata ''idcs'') (refresh_token stale_token),
         ConsoleError ''OCA: refreshTokenGrant failed:'' (Some (new_Error ''invalid_grant''))])"
    using getValid_never_throws[of quiet_env stale_cache "[]" "new_Error ''invalid_grant''"
        _ stale_token stale_cache "[]" "[Discovery]" "ProviderMetadata ''idcs''"]
    by blast
  \<comment> \<open>a write to the store that fails\<close>
  let ?n = "refreshed_record short_response stale_token
      (int (date_now full_env ([Discovery] @ [RefreshGrant (ProviderMetadata ''idcs'')
         (refresh_token stale_token)]) div 1000))"
  have "cached_or_loaded full_env (stale_cache, []) = (Inr (Some stale_token), stale_cache, [])
      \<and> \<not> isValid full_env [] stale_token"
    by (simp add: stale_cache_loaded stale_token_stale full_env_def refresh_env_def quiet_env_def)
  moreover have "has_refresh_token stale_token
      \<and> discoveryWithRetry full_env 3 500 2000 [] = (Inr (ProviderMetadata ''idcs''), [Discovery])
      \<and> refreshTokenGrant full_env [Discovery] (ProviderMetadata ''idcs'') (refresh_token stale_token)
          = Inr short_response
      \<and> secrets_store full_env ([Discovery] @ [RefreshGrant (ProviderMetadata ''idcs'')
           (refresh_token stale_token)]) (JSON_stringify full_env ?n) = Some (new_Error ''disk full'')"
    using discovery_first_try[of full_env "[]" "ProviderMetadata ''idcs''" 3 500 2000]
    by (simp add: hr full_env_def refresh_env_def quiet_env_def)
  ultimately have g7: "getValid full_env (stale_cache, []) =
       (Inr None, stale_cache,
        [Discovery] @ [RefreshGrant (ProviderMetadata ''idcs'') (refresh_token stale_token),
         SecretsStore (JSON_stringify full_env ?n),
         ConsoleError ''OCA: refreshTokenGrant failed:'' (Some (new_Error ''disk full''))])"
    using getValid_never_throws[of full_env stale_cache "[]" "new_Error ''disk full''"
        _ stale_token stale_cache "[]" "[Discovery]" "ProviderMetadata ''idcs''" short_response]
    by blast
  have j: "\<And>t. JSON_stringify full_env t = ''{}''"
    by (simp add: full_env_def refresh_env_def quiet_env_def)
  from g1 g2 g3 g4 g5 g6 g7 show ?thesis by (simp add: rt j)
qed

text \<open>
  Claim C3. If the cache holds a record \<open>T\<close> whose \<open>expires_at\<close> is more than 180 seconds
  after the current time, \<^verbatim>\<open>getValid\<close> returns \<open>T\<close> itself, leaves the fields of the
  manager as they are and makes no call to the outside: the log of events is unchanged.
\<close>

theorem getValid_valid_cached:
  assumes "cached m = Some T"
    and "expires_at T = Some ea"
    and "int (date_now e tr) + 180000 < 1000 * ea"
  shows "getValid e (m, tr) = (Inr (Some T), m, tr)"
proof -
  have "int (date_now e tr div 1000) < ea - 180"
    using assms(3) by (simp add: zdiv_int)
  moreover have "ea \<noteq> 0" using assms(3) by linarith
  ultimately have "isValid e tr T"
    using assms(2) by (simp add: isValid_def RENEW_TOKEN_BUFFER_SEC_def)
  then show ?thesis
    using assms(1) by (simp add: getValid_def cached_or_loaded_def)
qed

theorem getValid_valid_cached_witness:
  "getValid quiet_env (\<lparr>cached = Some fresh_token, inflightLogin = None\<rparr>, [])
     = (Inr (Some fresh_token), \<lparr>cached = Some fresh_token, inflightLogin = None\<rparr>, [])"
proof -
  have a: "cached \<lparr>cached = Some fresh_token, inflightLogin = None\<rparr> = Some fresh_token" by simp
  have b: "expires_at fresh_token = Some 4600" by (simp add: fresh_token_def stale_token_def)
  have c: "int (date_now quiet_env []) + 180000 < 1000 * 4600" by (simp add: quiet_env_def)
  from getValid_valid_cached[OF a b c] show ?thesis .
qed

lemma tryRefresh_success:
  assumes "tryRefresh e token (m, tr) = (Inr (Some t), m', tr')"
  shows "\<exists>config tr1 res.
           discoveryWithRetry e 3 500 2000 tr = (Inr config, tr1)
         \<and> refreshTokenGrant e tr1 config (refresh_token token) = Inr res
         \<and> t = refreshed_record res token
                 (int (date_now e (tr1 @ [RefreshGrant config (refresh_token token)]) div 1000))
         \<and> tr' = tr1 @ [RefreshGrant config (refresh_token token), SecretsStore (JSON_stringify e t)]
         \<and> m' = m\<lparr>cached := Some t\<rparr>"
  using assms
  by (auto simp: tryRefresh_def tryRefresh_try_def save_def Let_def
      split: sum.splits prod.splits option.splits)

section \<open>Silent refresh: properties\<close>

lemma tryRefresh_first_try:
  assumes "discovery e tr = Inr config"
    and "refreshTokenGrant e (tr @ [Discovery]) config (refresh_token token) = Inr res"
    and "t = refreshed_record res token
           (int (date_now e (tr @ [Discovery, RefreshGrant config (refresh_token token)]) div 1000))"
    and "secrets_store e (tr @ [Discovery, RefreshGrant config (refresh_token token)])
           (JSON_stringify e t) = None"
  shows "tryRefresh e token (m, tr) =
           (Inr (Some t), m\<lparr>cached := Some t\<rparr>,
            tr @ [Discovery, RefreshGrant config (refresh_token token),
                  SecretsStore (JSON_stringify e t)])"
  using assms(2,4) unfolding assms(3)
  by (simp add: tryRefresh_def tryRefresh_try_def discovery_first_try[OF assms(1)] save_def Let_def)

lemma bare_refresh:
  "tryRefresh bare_env stale_token (no_token, []) =
     (Inr (Some (stale_token\<lparr>access_token := Some ''at3'', expires_in := None\<rparr>)),
      no_token\<lparr>cached := Some (stale_token\<lparr>access_token := Some ''at3'', expires_in := None\<rparr>)\<rparr>,
      [Discovery, RefreshGrant (ProviderMetadata ''idcs'') (Some ''rt1''), SecretsStore ''{}''])"
proof -
  have a: "discovery bare_env [] = Inr (ProviderMetadata ''idcs'')"
    by (simp add: bare_env_def quiet_env_def)
  have b: "refreshTokenGrant bare_env ([] @ [Discovery]) (ProviderMetadata ''idcs'')
             (refresh_token stale_token) = Inr bare_response"
    by (simp add: bare_env_def)
  have c: "stale_token\<lparr>access_token := Some ''at3'', expires_in := None\<rparr> =
      refreshed_record bare_response stale_token
        (int (date_now bare_env ([] @ [Discovery, RefreshGrant (ProviderMetadata ''idcs'')
           (refresh_token stale_token)]) div 1000))"
    by (simp add: refreshed_record_def bare_response_def stale_token_def)
  have d: "secrets_store bare_env ([] @ [Discovery, RefreshGrant (ProviderMetadata ''idcs'')
           (refresh_token stale_token)])
           (JSON_stringify bare_env (stale_token\<lparr>access_token := Some ''at3'', expires_in := None\<rparr>))
           = None"
    by (simp add: bare_env_def quiet_env_def)
  have r: "refresh_token stale_token = Some ''rt1''" by (simp add: stale_token_def)
  have j: "JSON_stringify bare_env (stale_token\<lparr>access_token := Some ''at3'', expires_in := None\<rparr>) = ''{}''"
    by (simp add: bare_env_def quiet_env_def)
  from tryRefresh_first_try[OF a b c d, of no_token] show ?thesis
    by (simp add: r j)
qed

text \<open>
  Claim C10. When \<^verbatim>\<open>tryRefresh\<close> succeeds, the record it has stored and cached keeps the
  previous record's \<open>refresh_token\<close> if the response of the refresh grant has none, and
  keeps the previous record's \<open>expires_at\<close> if the response has no numeric \<open>expires_in\<close>.
\<close>

theorem refresh_keeps_missing_fields:
  assumes "tryRefresh e token (m, tr) = (Inr (Some t), m', tr')"
  shows "\<exists>config h res.
       refreshTokenGrant e h config (refresh_token token) = Inr res
     \<and> (res_refresh_token res = None \<longrightarrow> refresh_token t = refresh_token token)
     \<and> (res_expires_in res = None \<longrightarrow> expires_at t = expires_at token)
     \<and> cached m' = Some t
     \<and> tr' = h @ [RefreshGrant config (refresh_token token), SecretsStore (JSON_stringify e t)]"
proof -
  from tryRefresh_success[OF assms] obtain config tr1 res where
    g: "refreshTokenGrant e tr1 config (refresh_token token) = Inr res"
    and t: "t = refreshed_record res token
                 (int (date_now e (tr1 @ [RefreshGrant config (refresh_token token)]) div 1000))"
    and tr: "tr' = tr1 @ [RefreshGrant config (refresh_token token), SecretsStore (JSON_stringify e t)]"
    and m: "m' = m\<lparr>cached := Some t\<rparr>"
    by blast
  have "res_refresh_token res = None \<longrightarrow> refresh_token t = refresh_token token"
    by (simp add: t refreshed_record_def)
  moreover have "res_expires_in res = None \<longrightarrow> expires_at t = expires_at token"
    by (simp add: t refreshed_record_def)
  moreover have "cached m' = Some t" by (simp add: m)
  ultimately show ?thesis
    using g tr by (intro exI[of _ config] exI[of _ tr1] exI[of _ res]) simp
qed

theorem refresh_keeps_missing_fields_witness:
  "tryRefresh bare_env stale_token (no_token, []) =
     (Inr (Some (stale_token\<lparr>access_token := Some ''at3'', expires_in := None\<rparr>)),
      no_token\<lparr>cached := Some (stale_token\<lparr>access_token := Some ''at3'', expires_in := None\<rparr>)\<rparr>,
      [Discovery, RefreshGrant (ProviderMetadata ''idcs'') (Some ''rt1''), SecretsStore ''{}''])
   \<and> refresh_token (stale_token\<lparr>access_token := Some ''at3'', expires_in := None\<rparr>)
       = refresh_token stale_token
   \<and> expires_at (stale_token\<lparr>access_token := Some ''at3'', expires_in := None\<rparr>)
       = expires_at stale_token"
proof -
  let ?t = "stale_token\<lparr>access_token := Some ''at3'', expires_in := None\<rparr>"
  from refresh_keeps_missing_fields[OF bare_refresh] obtain config h res where
    g: "refreshTokenGrant bare_env h config (refresh_token stale_token) = Inr res"
    and r: "res_refresh_token res = None \<longrightarrow> refresh_token ?t = refresh_token stale_token"
    and x: "res_expires_in res = None \<longrightarrow> expires_at ?t = expires_at stale_token"
    by (elim exE conjE)
  from g have "res = bare_response" by (simp add: bare_env_def)
  then have "res_refresh_token res = None" and "res_expires_in res = None"
    by (simp_all add: bare_response_def)
  with r x bare_refresh show ?thesis by simp
qed

section \<open>Port fallback: properties\<close>

lemma attemptOnPort_in_use:
  "server_listen e tr p = Some err \<Longrightarrow> code err = Some ''EADDRINUSE'' \<Longrightarrow>
   attemptOnPort e config ch p tr = (Some (Inl port_in_use_error), tr @ [Listen p, ServerClose p])"
  by (simp add: attemptOnPort_def Let_def)

lemma attemptOnPort_other_error:
  "server_listen e tr p = Some err \<Longrightarrow> code err \<noteq> Some ''EADDRINUSE'' \<Longrightarrow>
   attemptOnPort e config ch p tr = (Some (Inl err), tr @ [Listen p])"
  by (simp add: attemptOnPort_def Let_def)

lemma code_port_in_use_error: "code port_in_use_error = Some ''EADDRINUSE''"
  by (simp add: port_in_use_error_def new_Error_def)

lemma formatOcaError_in_use: "code err = Some ''EADDRINUSE'' \<Longrightarrow> formatOcaError err = PORT_IN_USE_MESSAGE"
  by (simp add: formatOcaError_def Let_def)

lemma formatOcaError_no_port: "formatOcaError (new_Error NO_PORT_MESSAGE) = NO_PORT_MESSAGE"
  by (simp add: formatOcaError_def Let_def new_Error_def NO_PORT_MESSAGE_def toLowerCase_def)

lemma port_loop_all_in_use:
  "(\<And>h p. p \<in> set ps \<Longrightarrow> \<exists>err. server_listen e h p = Some err \<and> code err = Some ''EADDRINUSE'') \<Longrightarrow>
   port_loop e config ch ps lastError tr =
     (Exited None (if ps = [] then lastError else Some port_in_use_error),
      tr @ concat (map (\<lambda>p. [Listen p, ServerClose p]) ps))"
proof (induction ps arbitrary: lastError tr)
  case Nil
  then show ?case by simp
next
  case (Cons p ps)
  from Cons.prems[of p tr] obtain err where
    "server_listen e tr p = Some err" "code err = Some ''EADDRINUSE''" by auto
  then have a: "attemptOnPort e config ch p tr =
      (Some (Inl port_in_use_error), tr @ [Listen p, ServerClose p])"
    by (rule attemptOnPort_in_use)
  have "port_loop e config ch ps (Some port_in_use_error) (tr @ [Listen p, ServerClose p]) =
     (Exited None (if ps = [] then Some port_in_use_error else Some port_in_use_error),
      (tr @ [Listen p, ServerClose p]) @ concat (map (\<lambda>p. [Listen p, ServerClose p]) ps))"
    by (rule Cons.IH) (simp add: Cons.prems)
  then show ?case
    by (simp add: a code_port_in_use_error)
qed


lemma port_loop_in_use_then_other:
  assumes "\<And>h q. q \<in> set qs \<Longrightarrow> \<exists>err. server_listen e h q = Some err \<and> code err = Some ''EADDRINUSE''"
    and "\<And>h. server_listen e h p = Some err"
    and "code err \<noteq> Some ''EADDRINUSE''"
  shows "port_loop e config ch (qs @ p # rest) lastError tr =
     (Thrown (new_Error (formatOcaError err)),
      tr @ concat (map (\<lambda>q. [Listen q, ServerClose q]) qs) @ [Listen p])"
  using assms(1)
proof (induction qs arbitrary: lastError tr)
  case Nil
  show ?case
    by (simp add: attemptOnPort_other_error[OF assms(2) assms(3)] assms(3))
next
  case (Cons q qs)
  from Cons.prems[of q tr] obtain err' where
    "server_listen e tr q = Some err'" "code err' = Some ''EADDRINUSE''" by auto
  then have a: "attemptOnPort e config ch q tr =
      (Some (Inl port_in_use_error), tr @ [Listen q, ServerClose q])"
    by (rule attemptOnPort_in_use)
  have "port_loop e config ch (qs @ p # rest) (Some port_in_use_error) (tr @ [Listen q, ServerClose q]) =
     (Thrown (new_Error (formatOcaError err)),
      (tr @ [Listen q, ServerClose q]) @ concat (map (\<lambda>q. [Listen q, ServerClose q]) qs) @ [Listen p])"
    by (rule Cons.IH) (simp add: Cons.prems)
  then show ?case
    by (simp add: a code_port_in_use_error)
qed

text \<open>
  Claim C5. The interactive login tries the candidate ports in their order. (1) When
  binding a port fails with \<^verbatim>\<open>EADDRINUSE\<close>, the server is closed and the loop goes on
  with the next candidate; nothing is thrown. (2) When the ports before \<open>p\<close> are in use
  and binding \<open>p\<close> fails with another error, the login is rejected with that error's
  message and no later candidate is tried: the log ends with the attempt on \<open>p\<close>.
  (3) When every candidate is in use, each one has been tried once, in order, and the
  login is rejected with the error that no port is available (the message that the
  callback port is in use or, for an empty list of candidates, that no server could be
  started).
\<close>

theorem port_fallback:
  assumes d: "discoveryWithRetry e 3 500 2000 tr = (Inr config, tr1)"
  shows "(server_listen e h p = Some err \<and> code err = Some ''EADDRINUSE'' \<longrightarrow>
            port_loop e config ch (p # ps) lastError h =
              port_loop e config ch ps (Some port_in_use_error) (h @ [Listen p, ServerClose p]))
       \<and> (DEFAULT_INTERNAL_IDCS_PORT_CANDIDATES e = qs @ p # rest
            \<and> (\<forall>h q. q \<in> set qs \<longrightarrow>
                  (\<exists>err. server_listen e h q = Some err \<and> code err = Some ''EADDRINUSE''))
            \<and> (\<forall>h. server_listen e h p = Some err) \<and> code err \<noteq> Some ''EADDRINUSE'' \<longrightarrow>
            runInteractiveLogin e (m, tr) =
              (Some (Inl (new_Error (formatOcaError err))), m,
               tr1 @ concat (map (\<lambda>q. [Listen q, ServerClose q]) qs) @ [Listen p]))
       \<and> ((\<forall>h q. q \<in> set (DEFAULT_INTERNAL_IDCS_PORT_CANDIDATES e) \<longrightarrow>
                  (\<exists>err. server_listen e h q = Some err \<and> code err = Some ''EADDRINUSE'')) \<longrightarrow>
            runInteractiveLogin e (m, tr) =
              (Some (Inl (new_Error (if DEFAULT_INTERNAL_IDCS_PORT_CANDIDATES e = []
                                     then NO_PORT_MESSAGE else PORT_IN_USE_MESSAGE))), m,
               tr1 @ concat (map (\<lambda>q. [Listen q, ServerClose q])
                               (DEFAULT_INTERNAL_IDCS_PORT_CANDIDATES e))))"
proof (intro conjI impI)
  assume "server_listen e h p = Some err \<and> code err = Some ''EADDRINUSE''"
  then show "port_loop e config ch (p # ps) lastError h =
              port_loop e config ch ps (Some port_in_use_error) (h @ [Listen p, ServerClose p])"
    by (simp add: attemptOnPort_in_use code_port_in_use_error)
next
  assume a: "DEFAULT_INTERNAL_IDCS_PORT_CANDIDATES e = qs @ p # rest
            \<and> (\<forall>h q. q \<in> set qs \<longrightarrow>
                  (\<exists>err. server_listen e h q = Some err \<and> code err = Some ''EADDRINUSE''))
            \<and> (\<forall>h. server_listen e h p = Some err) \<and> code err \<noteq> Some ''EADDRINUSE''"
  have "\<And>c l. port_loop e config c (qs @ p # rest) l tr1 =
     (Thrown (new_Error (formatOcaError err)),
      tr1 @ concat (map (\<lambda>q. [Listen q, ServerClose q]) qs) @ [Listen p])"
    using a by (intro port_loop_in_use_then_other) auto
  then show "runInteractiveLogin e (m, tr) =
              (Some (Inl (new_Error (formatOcaError err))), m,
               tr1 @ concat (map (\<lambda>q. [Listen q, ServerClose q]) qs) @ [Listen p])"
    using a by (simp add: runInteractiveLogin_def d Let_def)
next
  assume a: "\<forall>h q. q \<in> set (DEFAULT_INTERNAL_IDCS_PORT_CANDIDATES e) \<longrightarrow>
                  (\<exists>err. server_listen e h q = Some err \<and> code err = Some ''EADDRINUSE'')"
  let ?ps = "DEFAULT_INTERNAL_IDCS_PORT_CANDIDATES e"
  have l: "\<And>c. port_loop e config c ?ps None tr1 =
     (Exited None (if ?ps = [] then None else Some port_in_use_error),
      tr1 @ concat (map (\<lambda>p. [Listen p, ServerClose p]) ?ps))"
    using a by (intro port_loop_all_in_use) auto
  show "runInteractiveLogin e (m, tr) =
              (Some (Inl (new_Error (if ?ps = [] then NO_PORT_MESSAGE else PORT_IN_USE_MESSAGE))), m,
               tr1 @ concat (map (\<lambda>q. [Listen q, ServerClose q]) ?ps))"
    by (simp add: runInteractiveLogin_def d Let_def l formatOcaError_no_port
        formatOcaError_in_use[OF code_port_in_use_error])
qed

theorem port_fallback_witness:
  "port_loop denied_env (ProviderMetadata ''idcs'') (Some ''challenge'') [8669, 8670] None [Discovery] =
     port_loop denied_env (ProviderMetadata ''idcs'') (Some ''challenge'') [8670]
       (Some port_in_use_error) [Discovery, Listen 8669, ServerClose 8669]
   \<and> runInteractiveLogin denied_env (no_token, []) =
       (Some (Inl (new_Error ''listen EACCES: permission denied 127.0.0.1:8670'')), no_token,
        [Discovery, Listen 8669, ServerClose 8669, Listen 8670])
   \<and> runInteractiveLogin crowded_env (no_token, []) =
       (Some (Inl (new_Error PORT_IN_USE_MESSAGE)), no_token,
        [Discovery, Listen 8669, ServerClose 8669, Listen 8670, ServerClose 8670])"
proof -
  have d1: "discoveryWithRetry denied_env 3 500 2000 [] = (Inr (ProviderMetadata ''idcs''), [] @ [Discovery])"
    by (rule discovery_first_try) (simp add: denied_env_def quiet_env_def)
  have d2: "discoveryWithRetry crowded_env 3 500 2000 [] = (Inr (ProviderMetadata ''idcs''), [] @ [Discovery])"
    by (rule discovery_first_try) (simp add: crowded_env_def quiet_env_def)
  have f: "formatOcaError eacces = ''listen EACCES: permission denied 127.0.0.1:8670''"
    by (simp add: formatOcaError_def Let_def eacces_def toLowerCase_def char_of_def bit_simps)
  have p1: "server_listen denied_env [Discovery] 8669 = Some eaddrinuse \<and> code eaddrinuse = Some ''EADDRINUSE''"
    by (simp add: denied_env_def eaddrinuse_def)
  have p2: "DEFAULT_INTERNAL_IDCS_PORT_CANDIDATES denied_env = [8669] @ 8670 # []
            \<and> (\<forall>h q. q \<in> set [8669] \<longrightarrow>
                  (\<exists>err. server_listen denied_env h q = Some err \<and> code err = Some ''EADDRINUSE''))
            \<and> (\<forall>h. server_listen denied_env h 8670 = Some eacces) \<and> code eacces \<noteq> Some ''EADDRINUSE''"
    by (simp add: denied_env_def quiet_env_def eaddrinuse_def eacces_def)
  have p3: "\<forall>h q. q \<in> set (DEFAULT_INTERNAL_IDCS_PORT_CANDIDATES crowded_env) \<longrightarrow>
                  (\<exists>err. server_listen crowded_env h q = Some err \<and> code err = Some ''EADDRINUSE'')"
    by (simp add: crowded_env_def eaddrinuse_def)
  have c: "DEFAULT_INTERNAL_IDCS_PORT_CANDIDATES crowded_env = [8669, 8670]"
    by (simp add: crowded_env_def quiet_env_def)
  note t1 = port_fallback[OF d1, of "[Discovery]" 8669 eaddrinuse "Some ''challenge''" "[8670]" None
      "[8669]" "[]" no_token]
  note t2 = port_fallback[OF d1, of "[Discovery]" 8670 eacces "Some ''challenge''" "[]" None
      "[8669]" "[]" no_token]
  note t3 = port_fallback[OF d2, of "[Discovery]" 8669 eaddrinuse "Some ''challenge''" "[]" None
      "[]" "[]" no_token]
  from t1 p1 have a: "port_loop denied_env (ProviderMetadata ''idcs'') (Some ''challenge'') [8669, 8670] None [Discovery] =
     port_loop denied_env (ProviderMetadata ''idcs'') (Some ''challenge'') [8670]
       (Some port_in_use_error) [Discovery, Listen 8669, ServerClose 8669]"
    by simp
  from t2 p2 have b: "runInteractiveLogin denied_env (no_token, []) =
       (Some (Inl (new_Error ''listen EACCES: permission denied 127.0.0.1:8670'')), no_token,
        [Discovery, Listen 8669, ServerClose 8669, Listen 8670])"
    by (simp add: f)
  from t3 p3 have "runInteractiveLogin crowded_env (no_token, []) =
       (Some (Inl (new_Error PORT_IN_USE_MESSAGE)), no_token,
        [Discovery, Listen 8669, ServerClose 8669, Listen 8670, ServerClose 8670])"
    by (simp add: c)
  with a b show ?thesis by simp
qed

section \<open>Expiry of a stored record\<close>

lemma await_listener_settled: "settled l \<noteq> None \<Longrightarrow> await_listener inps l = l"
  by (cases inps) auto

lemma deliver_port: "port (deliver inp l) = port l"
  by (cases inp)
     (auto simp: deliver_def on_request_def on_grant_settled_def split: option.splits sum.splits)

lemma deliver_document: "document (deliver inp l) = document l"
  by (cases inp)
     (auto simp: deliver_def on_request_def on_grant_settled_def split: option.splits sum.splits)

lemma run_listener_port: "port (run_listener inps l) = port l"
  by (induction inps arbitrary: l) (simp_all add: deliver_port)


text \<open>An input that settles the promise is the outcome of an awaited code exchange.\<close>

lemma deliver_settles:
  assumes "settled l = None" and "settled (deliver inp l) = Some out"
  shows "\<exists>i. inp = GrantSettles i out \<and> List.member (awaiting l) i"
proof (cases inp)
  case (Request c url)
  with assms show ?thesis
    by (auto simp: deliver_def on_request_def split: if_splits option.splits)
next
  case (GrantSettles i outcome)
  show ?thesis
  proof (cases "List.member (awaiting l) i")
    case False
    with assms GrantSettles show ?thesis by (simp add: deliver_def)
  next
    case True
    with assms GrantSettles have "outcome = out"
      by (cases outcome) (simp_all add: deliver_def on_grant_settled_def settle_def)
    with GrantSettles True show ?thesis by simp
  qed
qed

text \<open>
  The promise of a listener takes the outcome of the first awaited code exchange that
  settles.
\<close>

lemma await_listener_first:
  "settled l = None \<Longrightarrow> settled (await_listener inps l) = Some out \<Longrightarrow>
   \<exists>front i rest.
      inps = front @ GrantSettles i out # rest
    \<and> settled (run_listener front l) = None
    \<and> List.member (awaiting (run_listener front l)) i
    \<and> await_listener inps l = deliver (GrantSettles i out) (run_listener front l)"
proof (induction inps arbitrary: l)
  case Nil
  then show ?case by simp
next
  case (Cons inp inps)
  show ?case
  proof (cases "settled (deliver inp l)")
    case None
    with Cons.prems have "settled (await_listener inps (deliver inp l)) = Some out" by simp
    from Cons.IH[OF None this] obtain front i rest where
      "inps = front @ GrantSettles i out # rest"
      "settled (run_listener front (deliver inp l)) = None"
      "List.member (awaiting (run_listener front (deliver inp l))) i"
      "await_listener inps (deliver inp l)
         = deliver (GrantSettles i out) (run_listener front (deliver inp l))"
      by blast
    with Cons.prems(1) show ?thesis
      by (intro exI[of _ "inp # front"] exI[of _ i] exI[of _ rest]) simp
  next
    case (Some first)
    then have s: "await_listener inps (deliver inp l) = deliver inp l"
      by (intro await_listener_settled) simp
    with Cons.prems Some have "settled (deliver inp l) = Some out" by simp
    from deliver_settles[OF Cons.prems(1) this] obtain i where
      "inp = GrantSettles i out" "List.member (awaiting l) i" by blast
    with Cons.prems(1) s show ?thesis
      by (intro exI[of _ "[]"] exI[of _ i] exI[of _ inps]) simp
  qed
qed

lemma grant_settled_calls:
  "List.member (awaiting l) i \<Longrightarrow>
   calls (deliver (GrantSettles i out) l) =
     calls l @ [Respond (port l) i (case out of Inr t \<Rightarrow> 200 | Inl err \<Rightarrow> 400),
                ServerClose (port l)]"
  by (cases out) (simp_all add: deliver_def on_grant_settled_def)

text \<open>Every request that awaits its code exchange has had the exchange called.\<close>

lemma deliver_awaiting_granted:
  assumes "\<forall>i. List.member (awaiting l) i \<longrightarrow> CodeGrant (document l) (port l) i \<in> set (calls l)"
  shows "\<forall>i. List.member (awaiting (deliver inp l)) i \<longrightarrow>
           CodeGrant (document (deliver inp l)) (port (deliver inp l)) i \<in> set (calls (deliver inp l))"
proof (cases inp)
  case (Request c url)
  with assms show ?thesis
    by (auto simp: deliver_def on_request_def split: option.splits)
next
  case (GrantSettles j outcome)
  with assms show ?thesis
    by (cases outcome) (auto simp: deliver_def on_grant_settled_def)
qed

lemma run_listener_awaiting_granted:
  assumes "\<forall>i. List.member (awaiting l) i \<longrightarrow> CodeGrant (document l) (port l) i \<in> set (calls l)"
  shows "\<forall>i. List.member (awaiting (run_listener inps l)) i \<longrightarrow>
           CodeGrant (document l) (port l) i \<in> set (calls (run_listener inps l))"
  using assms
proof (induction inps arbitrary: l)
  case Nil
  then show ?case by simp
next
  case (Cons inp inps)
  from Cons.IH[OF deliver_awaiting_granted[OF Cons.prems, of inp]]
  show ?case by (simp add: deliver_port deliver_document)
qed

text \<open>
  An attempt that resolves: the port was bound, and the tokens are the response of the
  first code exchange that settled at its listener.
\<close>

lemma attemptOnPort_resolves:
  assumes "attemptOnPort e config ch p tr = (Some (Inr tokens), tr')"
  shows "\<exists>href front i rest.
           inbound e (tr @ [Listen p] @ on_listening e href) p = front @ GrantSettles i (Inr tokens) # rest
         \<and> settled (run_listener front (bound_listener config p)) = None
         \<and> List.member (awaiting (run_listener front (bound_listener config p))) i
         \<and> tr' = tr @ [Listen p] @ on_listening e href
                    @ calls (run_listener front (bound_listener config p))
                    @ [Respond p i 200, ServerClose p]"
proof (cases "server_listen e tr p")
  case (Some err)
  with assms show ?thesis
    by (simp add: attemptOnPort_def Let_def split: if_splits)
next
  case None
  let ?href = "buildAuthorizationUrl e config (REDIRECT_URI_TEMPLATE p)
         (if DEFAULT_INTERNAL_USE_PKCE e \<and> ch \<noteq> None \<and> ch \<noteq> Some [] then ch else None)"
  let ?h = "tr @ [Listen p] @ on_listening e ?href"
  let ?l = "await_listener (inbound e ?h p) (bound_listener config p)"
  from assms None have s: "settled ?l = Some (Inr tokens)" and t: "tr' = ?h @ calls ?l"
    by (simp_all add: attemptOnPort_def Let_def)
  have "settled (bound_listener config p) = None" by (simp add: bound_listener_def)
  from await_listener_first[OF this s] obtain front i rest where
    f: "inbound e ?h p = front @ GrantSettles i (Inr tokens) # rest"
    and u: "settled (run_listener front (bound_listener config p)) = None"
    and a: "List.member (awaiting (run_listener front (bound_listener config p))) i"
    and l: "?l = deliver (GrantSettles i (Inr tokens)) (run_listener front (bound_listener config p))"
    by blast
  have "calls ?l = calls (run_listener front (bound_listener config p))
      @ [Respond p i 200, ServerClose p]"
    unfolding l using grant_settled_calls[OF a, of "Inr tokens"]
    by (simp add: run_listener_port bound_listener_def)
  with t have "tr' = tr @ [Listen p] @ on_listening e ?href
                    @ calls (run_listener front (bound_listener config p))
                    @ [Respond p i 200, ServerClose p]"
    by simp
  with f u a show ?thesis by blast
qed

lemma attemptOnPort_extends: "\<exists>rest. snd (attemptOnPort e config ch p tr) = tr @ rest"
  by (simp add: attemptOnPort_def Let_def split: option.splits)

lemma port_loop_resolves:
  "port_loop e config ch ps lastError tr = (Exited (Some tokens) lastError', tr') \<Longrightarrow>
   \<exists>g p href front i rest.
       inbound e (tr @ g @ [Listen p] @ on_listening e href) p = front @ GrantSettles i (Inr tokens) # rest
     \<and> settled (run_listener front (bound_listener config p)) = None
     \<and> List.member (awaiting (run_listener front (bound_listener config p))) i
     \<and> tr' = tr @ g @ [Listen p] @ on_listening e href
                @ calls (run_listener front (bound_listener config p))
                @ [Respond p i 200, ServerClose p]"
proof (induction ps arbitrary: lastError tr)
  case Nil
  then show ?case by simp
next
  case (Cons p ps)
  obtain r tr1 where a: "attemptOnPort e config ch p tr = (r, tr1)"
    by (cases "attemptOnPort e config ch p tr")
  show ?case
  proof (cases r)
    case None
    with a Cons.prems show ?thesis by simp
  next
    case (Some out)
    show ?thesis
    proof (cases out)
      case (Inr t)
      with a Some Cons.prems have "t = tokens" "tr1 = tr'" by simp_all
      with a Some Inr have "attemptOnPort e config ch p tr = (Some (Inr tokens), tr')" by simp
      from attemptOnPort_resolves[OF this] obtain href front i rest where
        "inbound e (tr @ [Listen p] @ on_listening e href) p = front @ GrantSettles i (Inr tokens) # rest"
        "settled (run_listener front (bound_listener config p)) = None"
        "List.member (awaiting (run_listener front (bound_listener config p))) i"
        "tr' = tr @ [Listen p] @ on_listening e href
                    @ calls (run_listener front (bound_listener config p))
                    @ [Respond p i 200, ServerClose p]"
        by blast
      then show ?thesis
        by (intro exI[of _ "[]"] exI[of _ p] exI[of _ href] exI[of _ front] exI[of _ i]
            exI[of _ rest]) simp
    next
      case (Inl err)
      show ?thesis
      proof (cases "code err = Some ''EADDRINUSE''")
        case True
        with a Some Inl Cons.prems
        have l: "port_loop e config ch ps (Some err) tr1 = (Exited (Some tokens) lastError', tr')"
          by simp
        obtain mid where m: "tr1 = tr @ mid"
          using attemptOnPort_extends[of e config ch p tr] a by auto
        from Cons.IH[OF l] obtain g q href front i rest where
          "inbound e (tr1 @ g @ [Listen q] @ on_listening e href) q
             = front @ GrantSettles i (Inr tokens) # rest"
          "settled (run_listener front (bound_listener config q)) = None"
          "List.member (awaiting (run_listener front (bound_listener config q))) i"
          "tr' = tr1 @ g @ [Listen q] @ on_listening e href
                    @ calls (run_listener front (bound_listener config q))
                    @ [Respond q i 200, ServerClose q]"
          by blast
        then show ?thesis
          unfolding m
          by (intro exI[of _ "mid @ g"] exI[of _ q] exI[of _ href] exI[of _ front] exI[of _ i]
              exI[of _ rest]) simp
      next
        case False
        with a Some Inl Cons.prems show ?thesis by simp
      qed
    qed
  qed
qed

lemma runInteractiveLogin_success:
  assumes "runInteractiveLogin e (m, tr) = (Some (Inr t), m', tr')"
  shows "\<exists>config tr1 ch tokens lastError tr2.
           discoveryWithRetry e 3 500 2000 tr = (Inr config, tr1)
         \<and> port_loop e config ch (DEFAULT_INTERNAL_IDCS_PORT_CANDIDATES e) None tr1
             = (Exited (Some tokens) lastError, tr2)
         \<and> t = login_record tokens (int (date_now e tr2 div 1000))
         \<and> tr' = tr2 @ [SecretsStore (JSON_stringify e t)]
         \<and> m' = m\<lparr>cached := Some t\<rparr>"
  using assms
  by (auto simp: runInteractiveLogin_def save_def Let_def
      split: sum.splits prod.splits option.splits loop_exit.splits)


lemma short_refresh:
  "tryRefresh refresh_env stale_token (m, tr) =
     (Inr (Some short_token), m\<lparr>cached := Some short_token\<rparr>,
      tr @ [Discovery, RefreshGrant (ProviderMetadata ''idcs'') (Some ''rt1''), SecretsStore ''{}''])"
proof -
  have a: "discovery refresh_env tr = Inr (ProviderMetadata ''idcs'')"
    by (simp add: refresh_env_def quiet_env_def)
  have b: "refreshTokenGrant refresh_env (tr @ [Discovery]) (ProviderMetadata ''idcs'')
             (refresh_token stale_token) = Inr short_response"
    by (simp add: refresh_env_def)
  have c: "short_token =
      refreshed_record short_response stale_token
        (int (date_now refresh_env (tr @ [Discovery, RefreshGrant (ProviderMetadata ''idcs'')
           (refresh_token stale_token)]) div 1000))"
    by (simp add: refreshed_record_def short_response_def short_token_def stale_token_def
        refresh_env_def quiet_env_def)
  have d: "secrets_store refresh_env (tr @ [Discovery, RefreshGrant (ProviderMetadata ''idcs'')
           (refresh_token stale_token)]) (JSON_stringify refresh_env short_token) = None"
    by (simp add: refresh_env_def quiet_env_def)
  have r: "refresh_token stale_token = Some ''rt1''" by (simp add: stale_token_def)
  have j: "JSON_stringify refresh_env short_token = ''{}''"
    by (simp add: refresh_env_def quiet_env_def)
  from tryRefresh_first_try[OF a b c d, of m] show ?thesis
    by (simp add: r j)
qed

lemma login_env_port_loop:
  "port_loop login_env (ProviderMetadata ''idcs'') (Some ''challenge'') [8669, 8670] None [Discovery] =
     (Exited (Some short_response) None,
      [Discovery, Listen 8669, PostAuthUrl ''https://idcs/authorize'',
       OpenExternal ''https://idcs/authorize'', CodeGrant (ProviderMetadata ''idcs'') 8669 1,
       Respond 8669 1 200, ServerClose 8669])"
  by (simp add: attemptOnPort_def Let_def on_listening_def bound_listener_def deliver_def
      on_request_def on_grant_settled_def settle_def login_env_def refresh_env_def quiet_env_def)

lemma short_login:
  "runInteractiveLogin login_env (no_token, []) =
     (Some (Inr (login_record short_response 1000)),
      no_token\<lparr>cached := Some (login_record short_response 1000)\<rparr>,
      [Discovery, Listen 8669, PostAuthUrl ''https://idcs/authorize'',
       OpenExternal ''https://idcs/authorize'', CodeGrant (ProviderMetadata ''idcs'') 8669 1,
       Respond 8669 1 200, ServerClose 8669, SecretsStore ''{}''])"
proof -
  have d: "discoveryWithRetry login_env 3 500 2000 [] = (Inr (ProviderMetadata ''idcs''), [] @ [Discovery])"
    by (rule discovery_first_try) (simp add: login_env_def refresh_env_def quiet_env_def)
  have f: "DEFAULT_INTERNAL_USE_PKCE login_env"
    "\<And>h. randomPKCECodeVerifier login_env h = ''verifier''"
    "\<And>v. calculatePKCECodeChallenge login_env v = ''challenge''"
    "DEFAULT_INTERNAL_IDCS_PORT_CANDIDATES login_env = [8669, 8670]"
    "\<And>h. date_now login_env h = 1000000"
    "\<And>h s. secrets_store login_env h s = None"
    "\<And>t. JSON_stringify login_env t = ''{}''"
    by (simp_all add: login_env_def refresh_env_def quiet_env_def)
  show ?thesis
    by (simp add: runInteractiveLogin_def d f login_env_port_loop save_def Let_def
        del: port_loop.simps)
qed

text \<open>
  Claim C9, as amended. The record that a successful refresh or a successful interactive
  login stores and caches never takes its \<open>expires_at\<close> from the token response. When the
  response has a numeric \<open>expires_in\<close>, \<open>expires_at\<close> is the clock read when that response
  has arrived, in whole seconds, plus \<open>expires_in\<close>. When the response has none, a login
  stores no \<open>expires_at\<close> and a refresh keeps the \<open>expires_at\<close> of the previous record.
  The response of a refresh is what the refresh grant of this call has returned, and the
  clock is read on the log up to that call. The response of a login is the outcome of
  the first code exchange that has settled at the listener of this login, of a request
  that awaited it, and the clock is read when that request has been answered and the
  server closed.
\<close>

theorem expires_at_computed_locally:
  "(tryRefresh e token (m, tr) = (Inr (Some t), m', tr') \<longrightarrow>
      (\<exists>config h res.
           refreshTokenGrant e h config (refresh_token token) = Inr res
         \<and> tr' = h @ [RefreshGrant config (refresh_token token), SecretsStore (JSON_stringify e t)]
         \<and> cached m' = Some t
         \<and> expires_at t =
             (case res_expires_in res of
                Some n \<Rightarrow> Some (int (date_now e (h @ [RefreshGrant config (refresh_token token)])
                                        div 1000) + n)
              | None \<Rightarrow> expires_at token)))
   \<and> (runInteractiveLogin e (m, tr) = (Some (Inr t), m', tr') \<longrightarrow>
      (\<exists>config g p href front i rest tokens.
           inbound e (tr @ g @ [Listen p] @ on_listening e href) p
             = front @ GrantSettles i (Inr tokens) # rest
         \<and> settled (run_listener front (bound_listener config p)) = None
         \<and> List.member (awaiting (run_listener front (bound_listener config p))) i
         \<and> tr' = tr @ g @ [Listen p] @ on_listening e href
                    @ calls (run_listener front (bound_listener config p))
                    @ [Respond p i 200, ServerClose p, SecretsStore (JSON_stringify e t)]
         \<and> cached m' = Some t
         \<and> expires_at t =
             (case res_expires_in tokens of
                Some n \<Rightarrow>
                  Some (int (date_now e (tr @ g @ [Listen p] @ on_listening e href
                                @ calls (run_listener front (bound_listener config p))
                                @ [Respond p i 200, ServerClose p]) div 1000) + n)
              | None \<Rightarrow> None)))"
proof (intro conjI impI)
  assume "tryRefresh e token (m, tr) = (Inr (Some t), m', tr')"
  from tryRefresh_success[OF this] obtain config tr1 res where
    g: "refreshTokenGrant e tr1 config (refresh_token token) = Inr res"
    and t: "t = refreshed_record res token
                 (int (date_now e (tr1 @ [RefreshGrant config (refresh_token token)]) div 1000))"
    and tr: "tr' = tr1 @ [RefreshGrant config (refresh_token token), SecretsStore (JSON_stringify e t)]"
    and m: "m' = m\<lparr>cached := Some t\<rparr>"
    by blast
  have "expires_at t =
             (case res_expires_in res of
                Some n \<Rightarrow> Some (int (date_now e (tr1 @ [RefreshGrant config (refresh_token token)])
                                        div 1000) + n)
              | None \<Rightarrow> expires_at token)"
    by (subst t) (simp add: refreshed_record_def)
  moreover have "cached m' = Some t" by (simp add: m)
  ultimately show "\<exists>config h res.
           refreshTokenGrant e h config (refresh_token token) = Inr res
         \<and> tr' = h @ [RefreshGrant config (refresh_token token), SecretsStore (JSON_stringify e t)]
         \<and> cached m' = Some t
         \<and> expires_at t =
             (case res_expires_in res of
                Some n \<Rightarrow> Some (int (date_now e (h @ [RefreshGrant config (refresh_token token)])
                                        div 1000) + n)
              | None \<Rightarrow> expires_at token)"
    using g tr by (intro exI[of _ config] exI[of _ tr1] exI[of _ res]) simp
next
  assume "runInteractiveLogin e (m, tr) = (Some (Inr t), m', tr')"
  from runInteractiveLogin_success[OF this] obtain config tr1 ch tokens lastError tr2 where
    d: "discoveryWithRetry e 3 500 2000 tr = (Inr config, tr1)"
    and l: "port_loop e config ch (DEFAULT_INTERNAL_IDCS_PORT_CANDIDATES e) None tr1
             = (Exited (Some tokens) lastError, tr2)"
    and t: "t = login_record tokens (int (date_now e tr2 div 1000))"
    and tr: "tr' = tr2 @ [SecretsStore (JSON_stringify e t)]"
    and m: "m' = m\<lparr>cached := Some t\<rparr>"
    by blast
  from discoveryWithRetry_resolves[OF d] obtain mid where tr1: "tr1 = tr @ mid @ [Discovery]"
    by blast
  from port_loop_resolves[OF l] obtain g p href front i rest where
    f: "inbound e (tr1 @ g @ [Listen p] @ on_listening e href) p
          = front @ GrantSettles i (Inr tokens) # rest"
    and u: "settled (run_listener front (bound_listener config p)) = None"
    and a: "List.member (awaiting (run_listener front (bound_listener config p))) i"
    and tr2: "tr2 = tr1 @ g @ [Listen p] @ on_listening e href
                @ calls (run_listener front (bound_listener config p))
                @ [Respond p i 200, ServerClose p]"
    by blast
  let ?g = "mid @ [Discovery] @ g"
  have tr2': "tr2 = tr @ ?g @ [Listen p] @ on_listening e href
                @ calls (run_listener front (bound_listener config p))
                @ [Respond p i 200, ServerClose p]"
    using tr2 tr1 by simp
  have f': "inbound e (tr @ ?g @ [Listen p] @ on_listening e href) p
          = front @ GrantSettles i (Inr tokens) # rest"
    using f tr1 by simp
  have "expires_at t =
             (case res_expires_in tokens of
                Some n \<Rightarrow> Some (int (date_now e tr2 div 1000) + n)
              | None \<Rightarrow> None)"
    by (subst t) (simp add: login_record_def)
  then have x: "expires_at t =
             (case res_expires_in tokens of
                Some n \<Rightarrow>
                  Some (int (date_now e (tr @ ?g @ [Listen p] @ on_listening e href
                                @ calls (run_listener front (bound_listener config p))
                                @ [Respond p i 200, ServerClose p]) div 1000) + n)
              | None \<Rightarrow> None)"
    unfolding tr2' .
  have c: "cached m' = Some t" by (simp add: m)
  have tr'': "tr' = tr @ ?g @ [Listen p] @ on_listening e href
                    @ calls (run_listener front (bound_listener config p))
                    @ [Respond p i 200, ServerClose p, SecretsStore (JSON_stringify e t)]"
    using tr tr2' by simp
  show "\<exists>config g p href front i rest tokens.
           inbound e (tr @ g @ [Listen p] @ on_listening e href) p
             = front @ GrantSettles i (Inr tokens) # rest
         \<and> settled (run_listener front (bound_listener config p)) = None
         \<and> List.member (awaiting (run_listener front (bound_listener config p))) i
         \<and> tr' = tr @ g @ [Listen p] @ on_listening e href
                    @ calls (run_listener front (bound_listener config p))
                    @ [Respond p i 200, ServerClose p, SecretsStore (JSON_stringify e t)]
         \<and> cached m' = Some t
         \<and> expires_at t =
             (case res_expires_in tokens of
                Some n \<Rightarrow>
                  Some (int (date_now e (tr @ g @ [Listen p] @ on_listening e href
                                @ calls (run_listener front (bound_listener config p))
                                @ [Respond p i 200, ServerClose p]) div 1000) + n)
              | None \<Rightarrow> None)"
    apply (rule exI[of _ config])
    apply (rule exI[of _ "mid @ [Discovery] @ g"])
    apply (rule exI[of _ p])
    apply (rule exI[of _ href])
    apply (rule exI[of _ front])
    apply (rule exI[of _ i])
    apply (rule exI[of _ rest])
    apply (rule exI[of _ tokens])
    apply (intro conjI)
         apply (rule f')
        apply (rule u)
       apply (rule a)
      apply (rule tr'')
     apply (rule c)
    apply (rule x)
    done
qed

theorem expires_at_computed_locally_witness:
  "tryRefresh refresh_env stale_token (no_token, []) =
     (Inr (Some short_token), no_token\<lparr>cached := Some short_token\<rparr>,
      [] @ [Discovery, RefreshGrant (ProviderMetadata ''idcs'') (Some ''rt1''), SecretsStore ''{}''])
   \<and> expires_at short_token = Some (1000 + 60)
   \<and> runInteractiveLogin login_env (no_token, []) =
     (Some (Inr (login_record short_response 1000)),
      no_token\<lparr>cached := Some (login_record short_response 1000)\<rparr>,
      [Discovery, Listen 8669, PostAuthUrl ''https://idcs/authorize'',
       OpenExternal ''https://idcs/authorize'', CodeGrant (ProviderMetadata ''idcs'') 8669 1,
       Respond 8669 1 200, ServerClose 8669, SecretsStore ''{}''])
   \<and> expires_at (login_record short_response 1000) = Some (1000 + 60)"
proof -
  note r = short_refresh[of no_token "[]"]
  from expires_at_computed_locally[of refresh_env stale_token no_token "[]" short_token
      "no_token\<lparr>cached := Some short_token\<rparr>"
      "[] @ [Discovery, RefreshGrant (ProviderMetadata ''idcs'') (Some ''rt1''), SecretsStore ''{}'']"] r
  obtain config h res where
    g: "refreshTokenGrant refresh_env h config (refresh_token stale_token) = Inr res"
    and x: "expires_at short_token =
             (case res_expires_in res of
                Some n \<Rightarrow> Some (int (date_now refresh_env
                  (h @ [RefreshGrant config (refresh_token stale_token)]) div 1000) + n)
              | None \<Rightarrow> expires_at stale_token)"
    by blast
  from g have "res = short_response" by (simp add: refresh_env_def)
  then have "res_expires_in res = Some 60" by (simp add: short_response_def)
  with x have a: "expires_at short_token = Some (1000 + 60)"
    by (simp add: refresh_env_def quiet_env_def)
  note l = conjunct2[OF expires_at_computed_locally[of login_env stale_token no_token "[]"
      "login_record short_response 1000"
      "no_token\<lparr>cached := Some (login_record short_response 1000)\<rparr>"
      "[Discovery, Listen 8669, PostAuthUrl ''https://idcs/authorize'',
       OpenExternal ''https://idcs/authorize'', CodeGrant (ProviderMetadata ''idcs'') 8669 1,
       Respond 8669 1 200, ServerClose 8669, SecretsStore ''{}'']"], THEN mp, OF short_login]
  then obtain config g p href front i rest tokens where
    i: "inbound login_env ([] @ g @ [Listen p] @ on_listening login_env href) p
          = front @ GrantSettles i (Inr tokens) # rest"
    and y: "expires_at (login_record short_response 1000) =
             (case res_expires_in tokens of
                Some n \<Rightarrow>
                  Some (int (date_now login_env ([] @ g @ [Listen p] @ on_listening login_env href
                     @ calls (run_listener front (bound_listener config p))
                     @ [Respond p i 200, ServerClose p]) div 1000) + n)
              | None \<Rightarrow> None)"
    by blast
  have "GrantSettles i (Inr tokens) \<in> set (inbound login_env ([] @ g @ [Listen p] @ on_listening login_env href) p)"
    unfolding i by simp
  then have "tokens = short_response" by (simp add: login_env_def)
  then have "res_expires_in tokens = Some 60" by (simp add: short_response_def)
  with y have b: "expires_at (login_record short_response 1000) = Some (1000 + 60)"
    by (simp add: login_env_def refresh_env_def quiet_env_def)
  from a b r short_login show ?thesis by simp
qed

text \<open>
  The claim as it was written speaks of every successful refresh. Here the response of
  the refresh grant has no \<open>expires_in\<close>: the refresh succeeds at second 1000 of the clock,
  and the record it stores has the \<open>expires_at\<close> of the record before it, 900.
\<close>

theorem expires_at_kept_counterexample:
  "tryRefresh bare_env stale_token (no_token, []) =
     (Inr (Some (stale_token\<lparr>access_token := Some ''at3'', expires_in := None\<rparr>)),
      no_token\<lparr>cached := Some (stale_token\<lparr>access_token := Some ''at3'', expires_in := None\<rparr>)\<rparr>,
      [Discovery, RefreshGrant (ProviderMetadata ''idcs'') (Some ''rt1''), SecretsStore ''{}''])
   \<and> refreshTokenGrant bare_env [Discovery] (ProviderMetadata ''idcs'') (Some ''rt1'')
       = Inr bare_response
   \<and> res_expires_in bare_response = None
   \<and> date_now bare_env [Discovery, RefreshGrant (ProviderMetadata ''idcs'') (Some ''rt1'')] div 1000
       = 1000
   \<and> expires_at (stale_token\<lparr>access_token := Some ''at3'', expires_in := None\<rparr>) = Some 900"
proof -
  have "refreshTokenGrant bare_env [Discovery] (ProviderMetadata ''idcs'') (Some ''rt1'')
       = Inr bare_response"
    and "res_expires_in bare_response = None"
    and "date_now bare_env [Discovery, RefreshGrant (ProviderMetadata ''idcs'') (Some ''rt1'')] div 1000
       = 1000"
    and "expires_at (stale_token\<lparr>access_token := Some ''at3'', expires_in := None\<rparr>) = Some 900"
    by (simp_all add: bare_env_def quiet_env_def bare_response_def stale_token_def)
  with bare_refresh show ?thesis by simp
qed

section \<open>Discovery is made anew on every use\<close>

lemma port_loop_extends: "\<exists>rest. snd (port_loop e config ch ps lastError tr) = tr @ rest"
proof (induction ps arbitrary: lastError tr)
  case Nil
  then show ?case by simp
next
  case (Cons p ps)
  obtain r tr1 where a: "attemptOnPort e config ch p tr = (r, tr1)"
    by (cases "attemptOnPort e config ch p tr")
  obtain rest where r: "tr1 = tr @ rest"
    using attemptOnPort_extends[of e config ch p tr] a by auto
  show ?case
  proof (cases r)
    case None
    with a r show ?thesis by simp
  next
    case (Some out)
    show ?thesis
    proof (cases out)
      case (Inr t)
      with a r Some show ?thesis by simp
    next
      case (Inl err)
      obtain rest' where "snd (port_loop e config ch ps (Some err) tr1) = tr1 @ rest'"
        using Cons.IH by blast
      with a r Some Inl show ?thesis by simp
    qed
  qed
qed

lemma tryRefresh_calls_discovery:
  "\<exists>rest. snd (snd (tryRefresh e token (m, tr))) = tr @ Discovery # rest"
proof -
  obtain r tr1 where d: "discoveryWithRetry e 3 500 2000 tr = (r, tr1)"
    by (cases "discoveryWithRetry e 3 500 2000 tr")
  obtain rest where r: "tr1 = tr @ Discovery # rest"
    using discoveryWithRetry_calls[of e 3 500 2000 tr] d by auto
  show ?thesis
    by (simp add: tryRefresh_def tryRefresh_try_def d r save_def Let_def
        split: sum.splits option.splits)
qed

lemma runInteractiveLogin_calls_discovery:
  "\<exists>rest. snd (snd (runInteractiveLogin e (m, tr))) = tr @ Discovery # rest"
proof -
  obtain r tr1 where d: "discoveryWithRetry e 3 500 2000 tr = (r, tr1)"
    by (cases "discoveryWithRetry e 3 500 2000 tr")
  obtain rest where r: "tr1 = tr @ Discovery # rest"
    using discoveryWithRetry_calls[of e 3 500 2000 tr] d by auto
  show ?thesis
  proof (cases r)
    case (Inl err)
    with d r show ?thesis by (simp add: runInteractiveLogin_def)
  next
    case (Inr config)
    let ?ch = "map_option (calculatePKCECodeChallenge e)
       (if DEFAULT_INTERNAL_USE_PKCE e then Some (randomPKCECodeVerifier e tr1) else None)"
    obtain x tr2 where l: "port_loop e config ?ch (DEFAULT_INTERNAL_IDCS_PORT_CANDIDATES e) None tr1 = (x, tr2)"
      by (cases "port_loop e config ?ch (DEFAULT_INTERNAL_IDCS_PORT_CANDIDATES e) None tr1")
    obtain rest' where r': "tr2 = tr1 @ rest'"
      using port_loop_extends[of e config ?ch "DEFAULT_INTERNAL_IDCS_PORT_CANDIDATES e" None tr1] l
      by auto
    show ?thesis
    proof (cases "DEFAULT_INTERNAL_USE_PKCE e")
      case True
      with d Inr l show ?thesis
        by (simp add: runInteractiveLogin_def Let_def r r' save_def
            split: loop_exit.splits option.splits)
    next
      case False
      with d Inr l show ?thesis
        by (simp add: runInteractiveLogin_def Let_def r r' save_def
            split: loop_exit.splits option.splits)
    qed
  qed
qed


lemma short_refresh_again:
  "tryRefresh refresh_env short_token (m, tr) =
     (Inr (Some short_token), m\<lparr>cached := Some short_token\<rparr>,
      tr @ [Discovery, RefreshGrant (ProviderMetadata ''idcs'') (Some ''rt1''), SecretsStore ''{}''])"
proof -
  have a: "discovery refresh_env tr = Inr (ProviderMetadata ''idcs'')"
    by (simp add: refresh_env_def quiet_env_def)
  have b: "refreshTokenGrant refresh_env (tr @ [Discovery]) (ProviderMetadata ''idcs'')
             (refresh_token short_token) = Inr short_response"
    by (simp add: refresh_env_def)
  have c: "short_token =
      refreshed_record short_response short_token
        (int (date_now refresh_env (tr @ [Discovery, RefreshGrant (ProviderMetadata ''idcs'')
           (refresh_token short_token)]) div 1000))"
    by (simp add: refreshed_record_def short_response_def short_token_def stale_token_def
        refresh_env_def quiet_env_def)
  have d: "secrets_store refresh_env (tr @ [Discovery, RefreshGrant (ProviderMetadata ''idcs'')
           (refresh_token short_token)]) (JSON_stringify refresh_env short_token) = None"
    by (simp add: refresh_env_def quiet_env_def)
  have r: "refresh_token short_token = Some ''rt1''" by (simp add: short_token_def stale_token_def)
  have j: "JSON_stringify refresh_env short_token = ''{}''"
    by (simp add: refresh_env_def quiet_env_def)
  from tryRefresh_first_try[OF a b c d, of m] show ?thesis
    by (simp add: r j)
qed

lemma deliver_calls:
  assumes "\<forall>x \<in> set (calls l). listener_call l x"
  shows "\<forall>x \<in> set (calls (deliver inp l)). listener_call l x"
proof (cases inp)
  case (Request c url)
  with assms show ?thesis
    by (auto simp: deliver_def on_request_def listener_call_def split: option.splits)
next
  case (GrantSettles j outcome)
  with assms show ?thesis
    by (cases outcome) (auto simp: deliver_def on_grant_settled_def listener_call_def)
qed

lemma listener_call_deliver: "listener_call (deliver inp l) = listener_call l"
  by (simp add: listener_call_def fun_eq_iff deliver_port deliver_document)

lemma await_listener_calls:
  assumes "\<forall>x \<in> set (calls l). listener_call l x"
  shows "\<forall>x \<in> set (calls (await_listener inps l)). listener_call l x"
  using assms
proof (induction inps arbitrary: l)
  case Nil
  then show ?case by simp
next
  case (Cons inp inps)
  show ?case
  proof (cases "settled l = None")
    case False
    from await_listener_settled[OF False, of "inp # inps"] Cons.prems show ?thesis
      by (simp only:)
  next
    case True
    from deliver_calls[OF Cons.prems, of inp]
    have "\<forall>x \<in> set (calls (deliver inp l)). listener_call (deliver inp l) x"
      by (simp add: listener_call_deliver)
    from Cons.IH[OF this] True show ?thesis by (simp add: listener_call_deliver)
  qed
qed

lemma on_listening_events:
  "x \<in> set (on_listening e href) \<Longrightarrow>
     x = PostAuthUrl href \<or> x = OpenExternal href \<or> (\<exists>s err. x = ConsoleError s err)"
  by (auto simp: on_listening_def split: option.splits)

lemma made_with_append:
  "made_with e config xs \<Longrightarrow> made_with e config ys \<Longrightarrow> made_with e config (xs @ ys)"
  unfolding made_with_def set_append by blast

lemma made_with_Nil: "made_with e config []"
  by (simp add: made_with_def)

lemma attemptOnPort_made_with:
  "\<exists>rest. snd (attemptOnPort e config ch p tr) = tr @ rest \<and> made_with e config rest"
proof (cases "server_listen e tr p")
  case (Some err)
  then show ?thesis
    by (simp add: attemptOnPort_def Let_def made_with_def)
next
  case None
  define href where "href = buildAuthorizationUrl e config (REDIRECT_URI_TEMPLATE p)
         (if DEFAULT_INTERNAL_USE_PKCE e \<and> ch \<noteq> None \<and> ch \<noteq> Some [] then ch else None)"
  define l where
    "l = await_listener (inbound e (tr @ [Listen p] @ on_listening e href) p) (bound_listener config p)"
  have "\<forall>x \<in> set (calls (bound_listener config p)). listener_call (bound_listener config p) x"
    by (simp add: bound_listener_def)
  from await_listener_calls[OF this, of "inbound e (tr @ [Listen p] @ on_listening e href) p"]
  have g: "\<forall>x \<in> set (calls l). listener_call (bound_listener config p) x"
    unfolding l_def .
  have mw: "made_with e config ([Listen p] @ on_listening e href @ calls l)"
    unfolding made_with_def
  proof (intro conjI allI impI)
    fix c q i
    assume "CodeGrant c q i \<in> set ([Listen p] @ on_listening e href @ calls l)"
    then have "CodeGrant c q i \<in> set (calls l)"
      by (auto dest: on_listening_events)
    with g have "listener_call (bound_listener config p) (CodeGrant c q i)" by blast
    then show "c = config" by (simp add: listener_call_def bound_listener_def)
  next
    fix x
    assume a: "PostAuthUrl x \<in> set ([Listen p] @ on_listening e href @ calls l)"
    have "PostAuthUrl x \<notin> set (calls l)"
    proof
      assume "PostAuthUrl x \<in> set (calls l)"
      with g have "listener_call (bound_listener config p) (PostAuthUrl x)" by blast
      then show False by (simp add: listener_call_def)
    qed
    with a have "PostAuthUrl x \<in> set (on_listening e href)" by simp
    then have "x = href" by (auto dest: on_listening_events)
    then show "\<exists>q ch. x = buildAuthorizationUrl e config (REDIRECT_URI_TEMPLATE q) ch"
      unfolding href_def by blast
  qed
  have "snd (attemptOnPort e config ch p tr) = tr @ [Listen p] @ on_listening e href @ calls l"
    using None by (simp add: attemptOnPort_def Let_def href_def l_def)
  with mw show ?thesis by blast
qed

lemma port_loop_made_with:
  "\<exists>rest. snd (port_loop e config ch ps lastError tr) = tr @ rest \<and> made_with e config rest"
proof (induction ps arbitrary: lastError tr)
  case Nil
  then show ?case by (simp add: made_with_Nil)
next
  case (Cons p ps)
  obtain r tr1 where a: "attemptOnPort e config ch p tr = (r, tr1)"
    by (cases "attemptOnPort e config ch p tr")
  obtain rest where r: "tr1 = tr @ rest" and w: "made_with e config rest"
    using attemptOnPort_made_with[of e config ch p tr] a by auto
  show ?case
  proof (cases r)
    case None
    with a r w show ?thesis by simp
  next
    case (Some out)
    show ?thesis
    proof (cases out)
      case (Inr t)
      with a r w Some show ?thesis by simp
    next
      case (Inl err)
      obtain rest' where r': "snd (port_loop e config ch ps (Some err) tr1) = tr1 @ rest'"
        and w': "made_with e config rest'"
        using Cons.IH by blast
      from w w' have "made_with e config (rest @ rest')" by (rule made_with_append)
      with a r w r' Some Inl show ?thesis by simp
    qed
  qed
qed

text \<open>
  Claim C6, as amended. The manager keeps no discovery document. Every silent refresh and
  every interactive login begins with a call of \<^verbatim>\<open>discovery\<close> of its own, through the
  retrier. A successful refresh hands to the refresh grant the document that this call
  has resolved. A successful login builds every authorization URL that it posts from the
  document that its own call has resolved, and calls every code exchange with it; it
  has posted such a URL, and has answered with 200 a code exchange called with that
  document.
\<close>

theorem discovery_on_every_use:
  "(\<exists>rest. snd (snd (tryRefresh e token (m, tr))) = tr @ Discovery # rest)
   \<and> (\<exists>rest. snd (snd (runInteractiveLogin e (m, tr))) = tr @ Discovery # rest)
   \<and> (tryRefresh e token (m, tr) = (Inr (Some t), m', tr') \<longrightarrow>
        (\<exists>mid config.
             discovery e (tr @ mid) = Inr config
           \<and> tr' = tr @ mid @ [Discovery, RefreshGrant config (refresh_token token),
                                SecretsStore (JSON_stringify e t)]))
   \<and> (runInteractiveLogin e (m, tr) = (Some (Inr t), m', tr') \<longrightarrow>
        (\<exists>mid config rest.
             discovery e (tr @ mid) = Inr config
           \<and> tr' = tr @ mid @ [Discovery] @ rest @ [SecretsStore (JSON_stringify e t)]
           \<and> made_with e config rest
           \<and> (\<exists>href. PostAuthUrl href \<in> set rest)
           \<and> (\<exists>p i. CodeGrant config p i \<in> set rest \<and> Respond p i 200 \<in> set rest)))"
proof (intro conjI impI)
  show "\<exists>rest. snd (snd (tryRefresh e token (m, tr))) = tr @ Discovery # rest"
    by (rule tryRefresh_calls_discovery)
  show "\<exists>rest. snd (snd (runInteractiveLogin e (m, tr))) = tr @ Discovery # rest"
    by (rule runInteractiveLogin_calls_discovery)
next
  assume "tryRefresh e token (m, tr) = (Inr (Some t), m', tr')"
  from tryRefresh_success[OF this] obtain config tr1 where
    d: "discoveryWithRetry e 3 500 2000 tr = (Inr config, tr1)"
    and tr: "tr' = tr1 @ [RefreshGrant config (refresh_token token), SecretsStore (JSON_stringify e t)]"
    by blast
  from discoveryWithRetry_resolves[OF d] obtain mid where
    "tr1 = tr @ mid @ [Discovery]" "discovery e (tr @ mid) = Inr config" by blast
  with tr show "\<exists>mid config.
             discovery e (tr @ mid) = Inr config
           \<and> tr' = tr @ mid @ [Discovery, RefreshGrant config (refresh_token token),
                                SecretsStore (JSON_stringify e t)]"
    by (intro exI[of _ mid] exI[of _ config]) simp
next
  assume "runInteractiveLogin e (m, tr) = (Some (Inr t), m', tr')"
  from runInteractiveLogin_success[OF this] obtain config tr1 ch tokens lastError tr2 where
    d: "discoveryWithRetry e 3 500 2000 tr = (Inr config, tr1)"
    and l: "port_loop e config ch (DEFAULT_INTERNAL_IDCS_PORT_CANDIDATES e) None tr1
             = (Exited (Some tokens) lastError, tr2)"
    and tr: "tr' = tr2 @ [SecretsStore (JSON_stringify e t)]"
    by blast
  from discoveryWithRetry_resolves[OF d] obtain mid where
    tr1: "tr1 = tr @ mid @ [Discovery]" and c: "discovery e (tr @ mid) = Inr config" by blast
  from port_loop_made_with[of e config ch "DEFAULT_INTERNAL_IDCS_PORT_CANDIDATES e" None tr1] l
  obtain rest where tr2: "tr2 = tr1 @ rest" and w: "made_with e config rest" by auto
  from port_loop_resolves[OF l] obtain g p href front i where
    a: "List.member (awaiting (run_listener front (bound_listener config p))) i"
    and tr2': "tr2 = tr1 @ g @ [Listen p] @ on_listening e href
                @ calls (run_listener front (bound_listener config p))
                @ [Respond p i 200, ServerClose p]"
    by blast
  from tr2 tr2' have rest: "rest = g @ [Listen p] @ on_listening e href
                @ calls (run_listener front (bound_listener config p))
                @ [Respond p i 200, ServerClose p]"
    by simp
  have "\<forall>i. List.member (awaiting (bound_listener config p)) i \<longrightarrow>
          CodeGrant (document (bound_listener config p)) (port (bound_listener config p)) i
            \<in> set (calls (bound_listener config p))"
    by (simp add: bound_listener_def)
  from run_listener_awaiting_granted[OF this, of front] a
  have "CodeGrant config p i \<in> set (calls (run_listener front (bound_listener config p)))"
    by (simp add: bound_listener_def)
  then have x: "CodeGrant config p i \<in> set rest \<and> Respond p i 200 \<in> set rest"
    unfolding rest by simp
  have "PostAuthUrl href \<in> set (on_listening e href)" by (simp add: on_listening_def)
  then have y: "PostAuthUrl href \<in> set rest" unfolding rest by simp
  from tr tr1 tr2 have "tr' = tr @ mid @ [Discovery] @ rest @ [SecretsStore (JSON_stringify e t)]"
    by simp
  with c w x y show "\<exists>mid config rest.
             discovery e (tr @ mid) = Inr config
           \<and> tr' = tr @ mid @ [Discovery] @ rest @ [SecretsStore (JSON_stringify e t)]
           \<and> made_with e config rest
           \<and> (\<exists>href. PostAuthUrl href \<in> set rest)
           \<and> (\<exists>p i. CodeGrant config p i \<in> set rest \<and> Respond p i 200 \<in> set rest)"
    by blast
qed

theorem discovery_on_every_use_witness:
  "tryRefresh refresh_env short_token (stale_cache, [SecretsGet]) =
     (Inr (Some short_token), stale_cache\<lparr>cached := Some short_token\<rparr>,
      [SecretsGet] @ [Discovery, RefreshGrant (ProviderMetadata ''idcs'') (Some ''rt1''),
                      SecretsStore ''{}''])
   \<and> (\<exists>mid config.
         discovery refresh_env ([SecretsGet] @ mid) = Inr config
       \<and> [SecretsGet] @ [Discovery, RefreshGrant (ProviderMetadata ''idcs'') (Some ''rt1''),
                         SecretsStore ''{}'']
           = [SecretsGet] @ mid @ [Discovery, RefreshGrant config (refresh_token short_token),
                SecretsStore (JSON_stringify refresh_env short_token)])
   \<and> runInteractiveLogin login_env (no_token, []) =
     (Some (Inr (login_record short_response 1000)),
      no_token\<lparr>cached := Some (login_record short_response 1000)\<rparr>,
      [Discovery, Listen 8669, PostAuthUrl ''https://idcs/authorize'',
       OpenExternal ''https://idcs/authorize'', CodeGrant (ProviderMetadata ''idcs'') 8669 1,
       Respond 8669 1 200, ServerClose 8669, SecretsStore ''{}''])
   \<and> discovery login_env [] = Inr (ProviderMetadata ''idcs'')
   \<and> made_with login_env (ProviderMetadata ''idcs'')
       [Listen 8669, PostAuthUrl ''https://idcs/authorize'',
        OpenExternal ''https://idcs/authorize'', CodeGrant (ProviderMetadata ''idcs'') 8669 1,
        Respond 8669 1 200, ServerClose 8669]"
proof -
  note r = short_refresh_again[of stale_cache "[SecretsGet]"]
  note a = conjunct1[OF conjunct2[OF conjunct2[OF
      discovery_on_every_use[of refresh_env short_token stale_cache "[SecretsGet]" short_token
      "stale_cache\<lparr>cached := Some short_token\<rparr>"
      "[SecretsGet] @ [Discovery, RefreshGrant (ProviderMetadata ''idcs'') (Some ''rt1''),
                      SecretsStore ''{}'']"]]], THEN mp, OF r]
  note b = conjunct2[OF conjunct2[OF conjunct2[OF
      discovery_on_every_use[of login_env stale_token no_token "[]"
      "login_record short_response 1000"
      "no_token\<lparr>cached := Some (login_record short_response 1000)\<rparr>"
      "[Discovery, Listen 8669, PostAuthUrl ''https://idcs/authorize'',
       OpenExternal ''https://idcs/authorize'', CodeGrant (ProviderMetadata ''idcs'') 8669 1,
       Respond 8669 1 200, ServerClose 8669, SecretsStore ''{}'']"]]], THEN mp, OF short_login]
  have j: "\<And>t. JSON_stringify login_env t = ''{}''"
    by (simp add: login_env_def refresh_env_def quiet_env_def)
  have d: "\<And>h. discovery login_env h = Inr (ProviderMetadata ''idcs'')"
    by (simp add: login_env_def refresh_env_def quiet_env_def)
  from b obtain mid config rest where
    "discovery login_env ([] @ mid) = Inr config"
    and t: "[Discovery, Listen 8669, PostAuthUrl ''https://idcs/authorize'',
       OpenExternal ''https://idcs/authorize'', CodeGrant (ProviderMetadata ''idcs'') 8669 1,
       Respond 8669 1 200, ServerClose 8669, SecretsStore ''{}'']
       = [] @ mid @ [Discovery] @ rest
           @ [SecretsStore (JSON_stringify login_env (login_record short_response 1000))]"
    and w: "made_with login_env config rest"
    and g: "\<exists>p i. CodeGrant config p i \<in> set rest \<and> Respond p i 200 \<in> set rest"
    by blast
  then have c: "config = ProviderMetadata ''idcs''" by (simp add: d)
  from t have "butlast [Discovery, Listen 8669, PostAuthUrl ''https://idcs/authorize'',
       OpenExternal ''https://idcs/authorize'', CodeGrant (ProviderMetadata ''idcs'') 8669 1,
       Respond 8669 1 200, ServerClose 8669, SecretsStore ''{}''] = mid @ [Discovery] @ rest"
    by (simp add: j butlast_append)
  then have m: "[Discovery, Listen 8669, PostAuthUrl ''https://idcs/authorize'',
       OpenExternal ''https://idcs/authorize'', CodeGrant (ProviderMetadata ''idcs'') 8669 1,
       Respond 8669 1 200, ServerClose 8669] = mid @ Discovery # rest"
    by simp
  have "mid = []"
  proof (cases mid)
    case Nil
    then show ?thesis .
  next
    case (Cons x xs)
    with m have "Discovery \<in> set [Listen 8669, PostAuthUrl ''https://idcs/authorize'',
       OpenExternal ''https://idcs/authorize'', CodeGrant (ProviderMetadata ''idcs'') 8669 1,
       Respond 8669 1 200, ServerClose 8669]"
      by auto
    then show ?thesis by simp
  qed
  with m have "rest = [Listen 8669, PostAuthUrl ''https://idcs/authorize'',
       OpenExternal ''https://idcs/authorize'', CodeGrant (ProviderMetadata ''idcs'') 8669 1,
       Respond 8669 1 200, ServerClose 8669]"
    by simp
  with w c have "made_with login_env (ProviderMetadata ''idcs'')
       [Listen 8669, PostAuthUrl ''https://idcs/authorize'',
        OpenExternal ''https://idcs/authorize'', CodeGrant (ProviderMetadata ''idcs'') 8669 1,
        Respond 8669 1 200, ServerClose 8669]"
    by simp
  with r a short_login d show ?thesis by blast
qed

text \<open>
  The claim as it was written says that after the first successful discovery no later
  operation calls \<^verbatim>\<open>discovery\<close> again. Here the first \<^verbatim>\<open>getValid\<close> refreshes a stale
  record, its discovery succeeding at once; the provider's tokens live for 60 seconds,
  so the second \<^verbatim>\<open>getValid\<close> refreshes again, and calls \<^verbatim>\<open>discovery\<close> again.
\<close>

theorem discovery_cached_counterexample:
  "discovery refresh_env [] = Inr (ProviderMetadata ''idcs'')
   \<and> getValid refresh_env (stale_cache, []) =
       (Inr (Some short_token), stale_cache\<lparr>cached := Some short_token\<rparr>,
        [Discovery, RefreshGrant (ProviderMetadata ''idcs'') (Some ''rt1''), SecretsStore ''{}''])
   \<and> getValid refresh_env (stale_cache\<lparr>cached := Some short_token\<rparr>,
        [Discovery, RefreshGrant (ProviderMetadata ''idcs'') (Some ''rt1''), SecretsStore ''{}'']) =
       (Inr (Some short_token), stale_cache\<lparr>cached := Some short_token\<rparr>,
        [Discovery, RefreshGrant (ProviderMetadata ''idcs'') (Some ''rt1''), SecretsStore ''{}'',
         Discovery, RefreshGrant (ProviderMetadata ''idcs'') (Some ''rt1''), SecretsStore ''{}''])"
proof -
  have now: "\<And>h. date_now refresh_env h = 1000000"
    by (simp add: refresh_env_def quiet_env_def)
  have v1: "\<And>h. \<not> isValid refresh_env h stale_token"
    by (simp add: isValid_def now stale_token_def RENEW_TOKEN_BUFFER_SEC_def)
  have v2: "\<And>h. \<not> isValid refresh_env h short_token"
    by (simp add: isValid_def now short_token_def RENEW_TOKEN_BUFFER_SEC_def)
  have r1: "has_refresh_token stale_token"
    by (simp add: has_refresh_token_def stale_token_def)
  have r2: "has_refresh_token short_token"
    by (simp add: has_refresh_token_def short_token_def stale_token_def)
  have c: "cached stale_cache = Some stale_token" by (simp add: stale_cache_def)
  have a: "discovery refresh_env [] = Inr (ProviderMetadata ''idcs'')"
    by (simp add: refresh_env_def quiet_env_def)
  have g1: "getValid refresh_env (stale_cache, []) =
       (Inr (Some short_token), stale_cache\<lparr>cached := Some short_token\<rparr>,
        [Discovery, RefreshGrant (ProviderMetadata ''idcs'') (Some ''rt1''), SecretsStore ''{}''])"
    by (simp add: getValid_def cached_or_loaded_def c v1 r1 short_refresh)
  have g2: "getValid refresh_env (stale_cache\<lparr>cached := Some short_token\<rparr>,
        [Discovery, RefreshGrant (ProviderMetadata ''idcs'') (Some ''rt1''), SecretsStore ''{}'']) =
       (Inr (Some short_token), stale_cache\<lparr>cached := Some short_token\<rparr>,
        [Discovery, RefreshGrant (ProviderMetadata ''idcs'') (Some ''rt1''), SecretsStore ''{}'',
         Discovery, RefreshGrant (ProviderMetadata ''idcs'') (Some ''rt1''), SecretsStore ''{}''])"
    by (simp add: getValid_def cached_or_loaded_def v2 r2 short_refresh_again)
  from a g1 g2 show ?thesis by simp
qed

section \<open>The callback listener: properties\<close>












section \<open>Single-flight login: properties\<close>

text \<open>
  As long as \<^verbatim>\<open>logout\<close> is called only while no login is in flight, the logins in flight
  are exactly the one that \<^verbatim>\<open>inflightLogin\<close> names.
\<close>

lemma registered_login_resumes:
  assumes "\<forall>q < length (tasks rt). (tasks rt ! q = InFlight) = (inflightLogin (statics rt) = Some q)"
  shows "\<forall>q < length (tasks (snd (login_resumes existing rt))).
           (tasks (snd (login_resumes existing rt)) ! q = InFlight)
             = (inflightLogin (statics (snd (login_resumes existing rt))) = Some q)"
proof (cases existing)
  case (Some t)
  with assms show ?thesis by (simp add: login_resumes_def)
next
  case None
  show ?thesis
  proof (cases "inflightLogin (statics rt)")
    case (Some p)
    with None assms show ?thesis by (simp add: login_resumes_def)
  next
    case n: None
    with assms have "\<forall>q < length (tasks rt). tasks rt ! q \<noteq> InFlight" by auto
    with None n show ?thesis
      by (auto simp: login_resumes_def nth_append less_Suc_eq)
  qed
qed

lemma registered_login_settles:
  assumes "\<forall>q < length (tasks rt). (tasks rt ! q = InFlight) = (inflightLogin (statics rt) = Some q)"
  shows "\<forall>q < length (tasks (login_settles p out rt)).
           (tasks (login_settles p out rt) ! q = InFlight)
             = (inflightLogin (statics (login_settles p out rt)) = Some q)"
proof (cases "p < length (tasks rt) \<and> tasks rt ! p = InFlight")
  case False
  then have "login_settles p out rt = rt" by (auto simp: login_settles_def)
  with assms show ?thesis by simp
next
  case True
  with assms have p: "inflightLogin (statics rt) = Some p" by blast
  with assms have "\<forall>q < length (tasks rt). q \<noteq> p \<longrightarrow> tasks rt ! q \<noteq> InFlight" by auto
  with True show ?thesis
    by (auto simp: login_settles_def nth_list_update)
qed

lemma registered_logout:
  assumes "\<not> in_flight rt"
  shows "\<forall>q < length (tasks (do_step LogoutCalled rt)).
           (tasks (do_step LogoutCalled rt) ! q = InFlight)
             = (inflightLogin (statics (do_step LogoutCalled rt)) = Some q)"
proof -
  from assms have "\<forall>q < length (tasks rt). tasks rt ! q \<noteq> InFlight"
    by (auto simp: in_flight_def in_set_conv_nth)
  then show ?thesis by (simp add: logout_fields_def)
qed

lemma registered_run:
  assumes "\<forall>q < length (tasks rt). (tasks rt ! q = InFlight) = (inflightLogin (statics rt) = Some q)"
    and "logouts_idle sts rt"
  shows "\<forall>q < length (tasks (run sts rt)).
           (tasks (run sts rt) ! q = InFlight) = (inflightLogin (statics (run sts rt)) = Some q)"
  using assms
proof (induction sts arbitrary: rt)
  case Nil
  then show ?case by simp
next
  case (Cons st sts)
  have "\<forall>q < length (tasks (do_step st rt)).
           (tasks (do_step st rt) ! q = InFlight) = (inflightLogin (statics (do_step st rt)) = Some q)"
  proof (cases st)
    case (LoginResumes existing)
    with registered_login_resumes[OF Cons.prems(1), of existing] show ?thesis by simp
  next
    case (LoginSettles p out)
    with registered_login_settles[OF Cons.prems(1), of p out] show ?thesis by simp
  next
    case LogoutCalled
    with Cons.prems(2) have "\<not> in_flight rt" by simp
    from registered_logout[OF this] LogoutCalled show ?thesis by simp
  qed
  moreover from Cons.prems(2) have "logouts_idle sts (do_step st rt)" by simp
  ultimately have "\<forall>q < length (tasks (run sts (do_step st rt))).
           (tasks (run sts (do_step st rt)) ! q = InFlight)
             = (inflightLogin (statics (run sts (do_step st rt))) = Some q)"
    by (rule Cons.IH)
  then show ?case by simp
qed

text \<open>
  Claim C1, as amended. Take any run of the manager in which \<^verbatim>\<open>logout\<close> has been called
  only while no login was in flight, and a login \<open>p\<close> that is in flight at its end. A call
  of \<^verbatim>\<open>loginWithoutAutoOpen\<close> that \<^verbatim>\<open>getValid\<close> hands no record returns the promise of
  \<open>p\<close> and starts no login: the state is unchanged. No other login is in flight. When \<open>p\<close>
  settles, with a record or with an error, \<^verbatim>\<open>inflightLogin\<close> is cleared. A \<^verbatim>\<open>logout\<close>
  called now, while \<open>p\<close> is in flight, clears \<^verbatim>\<open>inflightLogin\<close> and leaves \<open>p\<close> in flight,
  and the next such call of \<^verbatim>\<open>loginWithoutAutoOpen\<close> starts a second login.
\<close>

theorem single_flight_login:
  assumes "logouts_idle sts start_runtime"
    and "rt = run sts start_runtime"
    and "p < length (tasks rt)"
    and "tasks rt ! p = InFlight"
  shows "login_resumes None rt = (Promise p, rt)
       \<and> (\<forall>q < length (tasks rt). q \<noteq> p \<longrightarrow> tasks rt ! q \<noteq> InFlight)
       \<and> inflightLogin (statics (login_settles p outcome rt)) = None
       \<and> tasks (login_settles p outcome rt) ! p = Settled outcome
       \<and> inflightLogin (statics (do_step LogoutCalled rt)) = None
       \<and> tasks (do_step LogoutCalled rt) = tasks rt
       \<and> login_resumes None (do_step LogoutCalled rt) =
           (Promise (length (tasks rt)),
            rt\<lparr>tasks := tasks rt @ [InFlight],
               statics := (logout_fields (statics rt))\<lparr>inflightLogin := Some (length (tasks rt))\<rparr>\<rparr>)"
proof -
  have "\<forall>q < length (tasks start_runtime).
          (tasks start_runtime ! q = InFlight) = (inflightLogin (statics start_runtime) = Some q)"
    by (simp add: start_runtime_def)
  from registered_run[OF this assms(1)] assms(2)
  have inv: "\<forall>q < length (tasks rt). (tasks rt ! q = InFlight) = (inflightLogin (statics rt) = Some q)"
    by simp
  with assms(3,4) have reg: "inflightLogin (statics rt) = Some p" by blast
  then have "login_resumes None rt = (Promise p, rt)" by (simp add: login_resumes_def)
  moreover from inv reg have "\<forall>q < length (tasks rt). q \<noteq> p \<longrightarrow> tasks rt ! q \<noteq> InFlight"
    by auto
  moreover from assms(3,4) have "inflightLogin (statics (login_settles p outcome rt)) = None"
    and "tasks (login_settles p outcome rt) ! p = Settled outcome"
    by (simp_all add: login_settles_def)
  moreover have "inflightLogin (statics (do_step LogoutCalled rt)) = None"
    and "tasks (do_step LogoutCalled rt) = tasks rt"
    and "login_resumes None (do_step LogoutCalled rt) =
           (Promise (length (tasks rt)),
            rt\<lparr>tasks := tasks rt @ [InFlight],
               statics := (logout_fields (statics rt))\<lparr>inflightLogin := Some (length (tasks rt))\<rparr>\<rparr>)"
    by (simp_all add: login_resumes_def logout_fields_def)
  ultimately show ?thesis by blast
qed

lemma idle_logout_then_two_callers:
  "run [LogoutCalled, LoginResumes None, LoginResumes None] start_runtime =
     \<lparr>statics = \<lparr>cached = None, inflightLogin = Some 0\<rparr>, tasks = [InFlight]\<rparr>"
  by (simp add: start_runtime_def login_resumes_def logout_fields_def)

theorem single_flight_login_witness:
  "logouts_idle [LogoutCalled, LoginResumes None, LoginResumes None] start_runtime
   \<and> login_resumes None (run [LogoutCalled, LoginResumes None, LoginResumes None] start_runtime)
     = (Promise 0, run [LogoutCalled, LoginResumes None, LoginResumes None] start_runtime)
   \<and> inflightLogin (statics (login_settles 0 (Inl (new_Error PORT_IN_USE_MESSAGE))
        (run [LogoutCalled, LoginResumes None, LoginResumes None] start_runtime))) = None
   \<and> inflightLogin (statics (login_settles 0 (Inr short_token)
        (run [LogoutCalled, LoginResumes None, LoginResumes None] start_runtime))) = None
   \<and> fst (login_resumes None (do_step LogoutCalled
        (run [LogoutCalled, LoginResumes None, LoginResumes None] start_runtime))) = Promise 1"
proof -
  define rt where "rt = run [LogoutCalled, LoginResumes None, LoginResumes None] start_runtime"
  have e: "rt = \<lparr>statics = \<lparr>cached = None, inflightLogin = Some 0\<rparr>, tasks = [InFlight]\<rparr>"
    unfolding rt_def by (rule idle_logout_then_two_callers)
  have a: "logouts_idle [LogoutCalled, LoginResumes None, LoginResumes None] start_runtime"
    by (simp add: in_flight_def start_runtime_def)
  have b: "0 < length (tasks rt)" by (simp add: e)
  have c: "tasks rt ! 0 = InFlight" by (simp add: e)
  have d: "length (tasks rt) = 1" by (simp add: e)
  note s = single_flight_login[OF a rt_def b c, of "Inl (new_Error PORT_IN_USE_MESSAGE)"]
  note t = single_flight_login[OF a rt_def b c, of "Inr short_token"]
  from t have "fst (login_resumes None (do_step LogoutCalled rt)) = Promise (length (tasks rt))"
    by simp
  with d have "fst (login_resumes None (do_step LogoutCalled rt)) = Promise 1" by simp
  with a s t show ?thesis unfolding rt_def by blast
qed

text \<open>
  The claim as it was written speaks of every call made while a login is in flight.
  \<^verbatim>\<open>logout\<close> clears \<^verbatim>\<open>inflightLogin\<close> while the first login is still in flight; the next
  call then starts a second login beside it.
\<close>

theorem login_after_logout_counterexample:
  "tasks (run [LoginResumes None, LogoutCalled] start_runtime) ! 0 = InFlight
   \<and> login_resumes None (run [LoginResumes None, LogoutCalled] start_runtime) =
       (Promise 1,
        \<lparr>statics = \<lparr>cached = None, inflightLogin = Some 1\<rparr>, tasks = [InFlight, InFlight]\<rparr>)"
  by (simp add: start_runtime_def login_resumes_def logout_fields_def)

end
